theory Spec2Isabelle
  imports Complex_Main "HOL-Library.Sublist" "HOL-Library.Multiset"
begin

section \<open>Strings of the host language\<close>

text \<open>
  The control is TypeScript; its strings are sequences of UTF-16 code units. The model
  reads a \<^typ>\<open>char\<close> as a code unit below 256 (the Latin-1 range), so every
  string of the model is a string the control can receive, and the string operations
  below are the ECMAScript ones restricted to that range.
\<close>

text \<open>
  \<^verbatim>\<open>String.prototype.toLowerCase\<close>: in the Latin-1 range the code units with a lower-case
  mapping are A-Z (65-90) and the accented capitals 192-222 except the multiplication sign
  215; each maps to the code unit 32 above it.
\<close>

definition toLowerCase_char :: "char \<Rightarrow> char" where
  "toLowerCase_char c =
     (let n = (of_char c :: nat)
      in if (65 \<le> n \<and> n \<le> 90) \<or> (192 \<le> n \<and> n \<le> 222 \<and> n \<noteq> 215)
         then char_of (n + 32) else c)"

definition toLowerCase :: "string \<Rightarrow> string" where
  "toLowerCase s = map toLowerCase_char s"

text \<open>
  \<^verbatim>\<open>String.prototype.trim\<close> removes leading and trailing white space and line terminators:
  below 256 these are TAB, LF, VT, FF, CR, SP and NBSP.
\<close>

definition isWhiteSpace :: "char \<Rightarrow> bool" where
  "isWhiteSpace c = ((of_char c :: nat) \<in> {9, 10, 11, 12, 13, 32, 160})"

definition trim :: "string \<Rightarrow> string" where
  "trim s = rev (dropWhile isWhiteSpace (rev (dropWhile isWhiteSpace s)))"

text \<open>
  \<^verbatim>\<open>String.prototype.includes\<close>: the search string occurs at some position of the
  receiver (every string includes the empty string).
\<close>

primrec includes_str :: "string \<Rightarrow> string \<Rightarrow> bool" where
  "includes_str [] q = (q = [])"
| "includes_str (c # cs) q = (take (length q) (c # cs) = q \<or> includes_str cs q)"

text \<open>
  \<^verbatim>\<open>Array.prototype.slice(start, end)\<close>: a negative index counts from the end of the
  array; both indices are clamped into the array.
\<close>

definition slice :: "'a list \<Rightarrow> int \<Rightarrow> int \<Rightarrow> 'a list" where
  "slice xs start fin =
     (let len = int (length xs);
          k = (if start < 0 then max (len + start) 0 else min start len);
          final = (if fin < 0 then max (len + fin) 0 else min fin len)
      in take (nat (final - k)) (drop (nat k) xs))"

text \<open>
  \<^verbatim>\<open>Array.prototype.sort(comparefn)\<close> is stable; for a consistent comparison function its
  result is the one of inserting each element, from the last to the first, before the first
  element it does not compare greater than.
\<close>

primrec insert_by :: "('a \<Rightarrow> 'a \<Rightarrow> int) \<Rightarrow> 'a \<Rightarrow> 'a list \<Rightarrow> 'a list" where
  "insert_by cmp x [] = [x]"
| "insert_by cmp x (y # ys) = (if cmp x y \<le> 0 then x # y # ys else y # insert_by cmp x ys)"

definition sort_by :: "('a \<Rightarrow> 'a \<Rightarrow> int) \<Rightarrow> 'a list \<Rightarrow> 'a list" where
  "sort_by cmp xs = foldr (insert_by cmp) xs []"

section \<open>The recordset and the control\<close>

text \<open>
  The dataset the framework hands to the control: the declared columns, the ids of the
  records in the framework's order, and \<^verbatim>\<open>records[id].getFormattedValue(column)\<close>, which may
  be absent. The framework keeps a record for every id it lists, so the lookup is total.
\<close>

record column =
  name :: string
  displayName :: string

record dataset =
  columns :: "column list"
  sortedRecordIds :: "string list"
  records :: "string \<Rightarrow> string \<Rightarrow> string option"

text \<open>
  The fields of \<^verbatim>\<open>ContactsControl\<close>: the text of the search input, the sort column
  (undefined until a header is clicked), the direction and the current page.
  \<^verbatim>\<open>recordsPerPage\<close> is never assigned after its initialiser.
\<close>

record control =
  searchInput :: string
  currentSortColumn :: "string option"
  isAscending :: bool
  currentPage :: int

definition recordsPerPage :: int where
  "recordsPerPage = 13"

definition initial :: control where
  "initial = \<lparr>searchInput = [], currentSortColumn = None, isAscending = True, currentPage = 1\<rparr>"

text \<open>
  \<^verbatim>\<open>getSortIndicator\<close> returns the empty string, an up-pointing triangle or a
  down-pointing triangle; the two glyphs lie outside the Latin-1 range and are named here.
\<close>

datatype indicator = NoIndicator | UpTriangle | DownTriangle

definition getSortIndicator :: "control \<Rightarrow> string \<Rightarrow> indicator" where
  "getSortIndicator this columnName =
     (if currentSortColumn this \<noteq> Some columnName then NoIndicator
      else if isAscending this then UpTriangle else DownTriangle)"

text \<open>\<^verbatim>\<open>getFormattedValue(c) || ""\<close>: an absent value reads as the empty string.\<close>

definition orEmpty :: "string option \<Rightarrow> string" where
  "orEmpty v = (case v of None \<Rightarrow> [] | Some s \<Rightarrow> s)"

subsection \<open>What a rendering leaves behind\<close>

text \<open>
  The page controls that \<^verbatim>\<open>renderPaginationControls\<close> appends: the two buttons Previous and
  Next with their \<^verbatim>\<open>disabled\<close> flags, and between them the numbered page buttons.
\<close>

record controls =
  previousDisabled :: bool
  pageButtons :: "int list"
  nextDisabled :: bool

text \<open>
  What one run of \<^verbatim>\<open>renderTable\<close> puts into the container: the table, with a header cell
  per column (display name and sort indicator) and a row per record of the page with one
  highlighted cell per column; the number of pages it hands to
  \<^verbatim>\<open>renderPaginationControls\<close>; and the page controls, if that call appended them.
\<close>

record rendered =
  headerCells :: "(string \<times> indicator) list"
  tableRows :: "(string \<times> string list) list"
  pageCount :: int
  paginationControls :: "controls option"

text \<open>
  How a call ends. \<open>Normal\<close>: it returns. \<open>SyntaxError\<close>: the RegExp constructor threw
  while a cell was highlighted; the container was cleared and the table not yet appended.
  \<open>DOMException\<close>: \<^verbatim>\<open>classList.add("")\<close> threw in \<^verbatim>\<open>renderPaginationControls\<close> (an empty
  token is a SyntaxError DOMException), after the table it carries had been appended and
  before the page controls were. \<open>Unsupported\<close>: the query left the fragment of patterns
  that the model covers.
\<close>

datatype 'a completion = Normal 'a | SyntaxError | DOMException rendered | Unsupported

subsection \<open>The steps of renderTable\<close>

definition searchQuery :: "control \<Rightarrow> string" where
  "searchQuery this = toLowerCase (trim (searchInput this))"

text \<open>
  The comparison function of the sort; \<open>localeCompare\<close> is the locale's collation, a
  parameter of the model.
\<close>

definition compareRecords ::
  "(string \<Rightarrow> string \<Rightarrow> int) \<Rightarrow> dataset \<Rightarrow> string \<Rightarrow> bool \<Rightarrow> string \<Rightarrow> string \<Rightarrow> int" where
  "compareRecords localeCompare ds col asc a b =
     (let recordA = orEmpty (records ds a col);
          recordB = orEmpty (records ds b col)
      in if asc then localeCompare recordA recordB else localeCompare recordB recordA)"

text \<open>The guard \<^verbatim>\<open>if (this.currentSortColumn)\<close> is false for undefined and for the empty string.\<close>

definition sortedRecords :: "(string \<Rightarrow> string \<Rightarrow> int) \<Rightarrow> dataset \<Rightarrow> control \<Rightarrow> string list" where
  "sortedRecords localeCompare ds this =
     (case currentSortColumn this of
        None \<Rightarrow> sortedRecordIds ds
      | Some col \<Rightarrow>
          if col = [] then sortedRecordIds ds
          else sort_by (compareRecords localeCompare ds col (isAscending this)) (sortedRecordIds ds))"

definition matchesFullName :: "dataset \<Rightarrow> string \<Rightarrow> string \<Rightarrow> bool" where
  "matchesFullName ds q recordId =
     includes_str (orEmpty (map_option toLowerCase (records ds recordId ''fullname''))) q"

definition matchesOtherFields :: "dataset \<Rightarrow> string \<Rightarrow> string \<Rightarrow> bool" where
  "matchesOtherFields ds q recordId =
     list_ex (\<lambda>col. case records ds recordId (name col) of
                       None \<Rightarrow> False
                     | Some v \<Rightarrow> includes_str (toLowerCase v) q) (columns ds)"

definition filteredRecords :: "(string \<Rightarrow> string \<Rightarrow> int) \<Rightarrow> dataset \<Rightarrow> control \<Rightarrow> string list" where
  "filteredRecords localeCompare ds this =
     filter (\<lambda>recordId. matchesFullName ds (searchQuery this) recordId
                        \<or> matchesOtherFields ds (searchQuery this) recordId)
       (sortedRecords localeCompare ds this)"

definition totalRecords :: "(string \<Rightarrow> string \<Rightarrow> int) \<Rightarrow> dataset \<Rightarrow> control \<Rightarrow> int" where
  "totalRecords localeCompare ds this = int (length (filteredRecords localeCompare ds this))"

text \<open>\<^verbatim>\<open>Math.ceil(totalRecords / this.recordsPerPage)\<close> on a length.\<close>

definition totalPages :: "(string \<Rightarrow> string \<Rightarrow> int) \<Rightarrow> dataset \<Rightarrow> control \<Rightarrow> int" where
  "totalPages localeCompare ds this =
     (totalRecords localeCompare ds this + recordsPerPage - 1) div recordsPerPage"

text \<open>\<^verbatim>\<open>Math.min(this.currentPage, totalPages) || 1\<close>: the minimum, or 1 when the minimum is 0.\<close>

definition clampPage :: "int \<Rightarrow> int \<Rightarrow> int" where
  "clampPage requested pages = (let m = min requested pages in if m = 0 then 1 else m)"

definition newCurrentPage :: "(string \<Rightarrow> string \<Rightarrow> int) \<Rightarrow> dataset \<Rightarrow> control \<Rightarrow> int" where
  "newCurrentPage localeCompare ds this =
     clampPage (currentPage this) (totalPages localeCompare ds this)"

definition startIndex :: "(string \<Rightarrow> string \<Rightarrow> int) \<Rightarrow> dataset \<Rightarrow> control \<Rightarrow> int" where
  "startIndex localeCompare ds this = (newCurrentPage localeCompare ds this - 1) * recordsPerPage"

definition paginatedRecords :: "(string \<Rightarrow> string \<Rightarrow> int) \<Rightarrow> dataset \<Rightarrow> control \<Rightarrow> string list" where
  "paginatedRecords localeCompare ds this =
     slice (filteredRecords localeCompare ds this)
       (startIndex localeCompare ds this)
       (startIndex localeCompare ds this + recordsPerPage)"

section \<open>Regular expressions of the host language\<close>

text \<open>
  \<^verbatim>\<open>highlightText\<close> builds a regular expression from the query. The model covers a
  fragment of the ECMAScript pattern language: pattern characters, the dot, the greedy
  quantifiers \<^verbatim>\<open>* + ?\<close>, capturing groups, alternation and escaped syntax characters.
  A pattern outside the fragment (anchors, character classes, braces, lazy quantifiers,
  special groups, other escapes) is \<open>Unsupported\<close>: the model says nothing about it.
\<close>

datatype regex =
    Empty
  | Chr char
  | AnyChar
  | Seq regex regex
  | Alt regex regex
  | Star regex
  | Plus regex
  | Opt regex
  | Group regex

text \<open>The syntax characters of the pattern grammar: \<^verbatim>\<open>^ $ \ . * + ? ( ) [ ] { } |\<close>.\<close>

definition isSyntaxCharacter :: "char \<Rightarrow> bool" where
  "isSyntaxCharacter c = (c = CHR 0x5C \<or> c \<in> set ''^$.*+?()[]{}|'')"

definition isQuantified :: "regex \<Rightarrow> bool" where
  "isQuantified t = (case t of Star _ \<Rightarrow> True | Plus _ \<Rightarrow> True | Opt _ \<Rightarrow> True | _ \<Rightarrow> False)"

definition quantify :: "char \<Rightarrow> regex \<Rightarrow> regex" where
  "quantify c t = (if c = CHR ''*'' then Star t else if c = CHR ''+'' then Plus t else Opt t)"

text \<open>
  The parser reads the pattern from left to right. A frame holds the finished alternatives
  and the terms of the current alternative of one disjunction, both latest first; the
  frames of the enclosing groups wait on a stack.
\<close>

type_synonym frame = "regex list \<times> regex list"

definition closeAlternative :: "regex list \<Rightarrow> regex" where
  "closeAlternative terms = foldl (\<lambda>acc t. Seq t acc) Empty terms"

definition closeDisjunction :: "frame \<Rightarrow> regex" where
  "closeDisjunction f = foldl (\<lambda>acc a. Alt a acc) (closeAlternative (snd f)) (fst f)"

fun parsePattern :: "string \<Rightarrow> frame \<Rightarrow> frame list \<Rightarrow> regex completion" where
  "parsePattern [] cur outer = (if outer = [] then Normal (closeDisjunction cur) else SyntaxError)"
| "parsePattern (c # cs) cur outer =
     (if c = CHR ''('' then
        (case cs of
           [] \<Rightarrow> SyntaxError
         | d # _ \<Rightarrow> if d = CHR ''?'' then Unsupported else parsePattern cs ([], []) (cur # outer))
      else if c = CHR '')'' then
        (case outer of
           [] \<Rightarrow> SyntaxError
         | f # fs \<Rightarrow> parsePattern cs (fst f, Group (closeDisjunction cur) # snd f) fs)
      else if c = CHR ''|'' then
        parsePattern cs (closeAlternative (snd cur) # fst cur, []) outer
      else if c = CHR ''*'' \<or> c = CHR ''+'' \<or> c = CHR ''?'' then
        (case snd cur of
           [] \<Rightarrow> SyntaxError
         | t # ts \<Rightarrow>
             if isQuantified t then (if c = CHR ''?'' then Unsupported else SyntaxError)
             else parsePattern cs (fst cur, quantify c t # ts) outer)
      else if c = CHR ''.'' then
        parsePattern cs (fst cur, AnyChar # snd cur) outer
      else if c = CHR 0x5C then
        (case cs of
           [] \<Rightarrow> SyntaxError
         | d # ds \<Rightarrow>
             if isSyntaxCharacter d then parsePattern ds (fst cur, Chr d # snd cur) outer
             else Unsupported)
      else if isSyntaxCharacter c then Unsupported
      else parsePattern cs (fst cur, Chr c # snd cur) outer)"

text \<open>\<^verbatim>\<open>new RegExp(pattern, "gi")\<close>.\<close>

definition RegExp :: "string \<Rightarrow> regex completion" where
  "RegExp pattern = parsePattern pattern ([], []) []"

text \<open>
  Matching with the flag \<^verbatim>\<open>i\<close> compares canonicalised code units: the upper-case
  mapping where it is a single code unit. Below 256 that maps a-z and the accented small
  letters 224-254 (except the division sign 247) to the code unit 32 below. The images of
  181 and 255 lie above 255 and are the image of no other code unit of the range, so
  leaving the two fixed decides the same comparisons.
\<close>

definition canonicalize :: "char \<Rightarrow> char" where
  "canonicalize c =
     (let n = (of_char c :: nat)
      in if (97 \<le> n \<and> n \<le> 122) \<or> (224 \<le> n \<and> n \<le> 254 \<and> n \<noteq> 247)
         then char_of (n - 32) else c)"

definition isLineTerminator :: "char \<Rightarrow> bool" where
  "isLineTerminator c = ((of_char c :: nat) \<in> {10, 13})"

text \<open>
  The matcher returns, for the input that is left, every remainder a match can leave, in
  the order backtracking tries them; the match the engine reports is the first. An
  iteration of a quantifier with minimum 0 that consumes nothing is rejected.
\<close>

function starMatches :: "(string \<Rightarrow> string list) \<Rightarrow> string \<Rightarrow> string list" where
  "starMatches m s = concat (map (starMatches m) (filter (\<lambda>t. length t < length s) (m s))) @ [s]"
  by pat_completeness auto
termination
  by (relation "measure (\<lambda>(m, s). length s)") auto

declare starMatches.simps [simp del]

primrec matches :: "regex \<Rightarrow> string \<Rightarrow> string list" where
  "matches Empty s = [s]"
| "matches (Chr c) s =
     (case s of [] \<Rightarrow> [] | d # ds \<Rightarrow> if canonicalize d = canonicalize c then [ds] else [])"
| "matches AnyChar s =
     (case s of [] \<Rightarrow> [] | d # ds \<Rightarrow> if isLineTerminator d then [] else [ds])"
| "matches (Seq a b) s = concat (map (matches b) (matches a s))"
| "matches (Alt a b) s = matches a s @ matches b s"
| "matches (Star a) s = starMatches (matches a) s"
| "matches (Plus a) s = concat (map (starMatches (matches a)) (matches a s))"
| "matches (Opt a) s = filter (\<lambda>t. length t < length s) (matches a s) @ [s]"
| "matches (Group a) s = matches a s"

definition openMarker :: string where
  "openMarker = ''<span class=\"highlight\">''"

definition closeMarker :: string where
  "closeMarker = ''</span>''"

text \<open>
  \<^verbatim>\<open>value.replace(regex, `<span class="highlight">$1</span>`)\<close> with the flag \<^verbatim>\<open>g\<close>: the
  scan looks for a match at each position from the left, replaces it and goes on behind
  it; behind an empty match it steps one code unit further. The first group encloses the
  whole pattern, so \<^verbatim>\<open>$1\<close> is the matched text.
\<close>

function replaceMatches :: "regex \<Rightarrow> string \<Rightarrow> string" where
  "replaceMatches r s =
     (case matches r s of
        [] \<Rightarrow> (case s of [] \<Rightarrow> [] | c # cs \<Rightarrow> c # replaceMatches r cs)
      | t # _ \<Rightarrow>
          if length t < length s
          then openMarker @ take (length s - length t) s @ closeMarker @ replaceMatches r t
          else openMarker @ closeMarker @ (case s of [] \<Rightarrow> [] | c # cs \<Rightarrow> c # replaceMatches r cs))"
  by pat_completeness auto
termination
  by (relation "measure (\<lambda>(r, s). length s)") auto

declare replaceMatches.simps [simp del]

definition highlightText :: "string \<Rightarrow> string \<Rightarrow> string completion" where
  "highlightText v q =
     (if q = [] then Normal v
      else case RegExp (''('' @ q @ '')'') of
             Normal (Seq (Group g) Empty) \<Rightarrow> Normal (replaceMatches (Group g) v)
           | Normal _ \<Rightarrow> Unsupported
           | SyntaxError \<Rightarrow> SyntaxError
           | DOMException r \<Rightarrow> DOMException r
           | Unsupported \<Rightarrow> Unsupported)"

section \<open>Rendering and the header click\<close>

text \<open>The first call that does not complete ends the loop over the cells.\<close>

primrec collect :: "'a completion list \<Rightarrow> 'a list completion" where
  "collect [] = Normal []"
| "collect (x # xs) =
     (case x of
        Normal v \<Rightarrow> (case collect xs of
                       Normal vs \<Rightarrow> Normal (v # vs)
                     | SyntaxError \<Rightarrow> SyntaxError
                     | DOMException r \<Rightarrow> DOMException r
                     | Unsupported \<Rightarrow> Unsupported)
      | SyntaxError \<Rightarrow> SyntaxError
      | DOMException r \<Rightarrow> DOMException r
      | Unsupported \<Rightarrow> Unsupported)"

definition renderRow :: "dataset \<Rightarrow> string \<Rightarrow> string \<Rightarrow> (string \<times> string list) completion" where
  "renderRow ds q recordId =
     (case collect (map (\<lambda>col. highlightText (orEmpty (records ds recordId (name col))) q)
                     (columns ds)) of
        Normal cells \<Rightarrow> Normal (recordId, cells)
      | SyntaxError \<Rightarrow> SyntaxError
      | DOMException r \<Rightarrow> DOMException r
      | Unsupported \<Rightarrow> Unsupported)"

text \<open>
  The loop of \<^verbatim>\<open>renderPaginationControls\<close> over the page numbers: the button of the current
  page gets the class \<^verbatim>\<open>active\<close>; for any other number the class is the empty string, and
  \<^verbatim>\<open>classList.add("")\<close> throws. \<open>None\<close> is that exception.
\<close>

primrec addPageButtons :: "int \<Rightarrow> int list \<Rightarrow> int list option" where
  "addPageButtons current [] = Some []"
| "addPageButtons current (i # rest) =
     (if i = current
      then (case addPageButtons current rest of None \<Rightarrow> None | Some bs \<Rightarrow> Some (i # bs))
      else None)"

definition renderPaginationControls :: "int \<Rightarrow> control \<Rightarrow> controls option" where
  "renderPaginationControls pages this =
     (case addPageButtons (currentPage this) [1..pages] of
        None \<Rightarrow> None
      | Some bs \<Rightarrow>
          Some \<lparr>previousDisabled = (currentPage this = 1),
                pageButtons = bs,
                nextDisabled = (currentPage this = pages)\<rparr>)"

text \<open>
  \<^verbatim>\<open>renderTable\<close> assigns the corrected page to \<^verbatim>\<open>this.currentPage\<close> before it renders
  the rows, so the control it leaves holds the corrected page also when a later call
  throws. It appends the table and then calls \<^verbatim>\<open>renderPaginationControls\<close>.
\<close>

definition renderTable ::
  "(string \<Rightarrow> string \<Rightarrow> int) \<Rightarrow> dataset \<Rightarrow> control \<Rightarrow> control \<times> rendered completion" where
  "renderTable localeCompare ds this =
     (this\<lparr>currentPage := newCurrentPage localeCompare ds this\<rparr>,
      case collect (map (renderRow ds (searchQuery this)) (paginatedRecords localeCompare ds this)) of
        Normal rs \<Rightarrow>
          (let table = \<lparr>headerCells = map (\<lambda>col. (displayName col, getSortIndicator this (name col)))
                                          (columns ds),
                        tableRows = rs,
                        pageCount = totalPages localeCompare ds this,
                        paginationControls = None\<rparr>
           in case renderPaginationControls (totalPages localeCompare ds this)
                     (this\<lparr>currentPage := newCurrentPage localeCompare ds this\<rparr>) of
                None \<Rightarrow> DOMException table
              | Some c \<Rightarrow> Normal (table\<lparr>paginationControls := Some c\<rparr>))
      | SyntaxError \<Rightarrow> SyntaxError
      | DOMException r \<Rightarrow> DOMException r
      | Unsupported \<Rightarrow> Unsupported)"

definition sortTable ::
  "(string \<Rightarrow> string \<Rightarrow> int) \<Rightarrow> dataset \<Rightarrow> control \<Rightarrow> string \<Rightarrow> control \<times> rendered completion" where
  "sortTable localeCompare ds this columnName =
     renderTable localeCompare ds
       (if currentSortColumn this = Some columnName
        then this\<lparr>isAscending := \<not> isAscending this\<rparr>
        else this\<lparr>currentSortColumn := Some columnName, isAscending := True\<rparr>)"

subsection \<open>The event handlers\<close>

text \<open>
  Every handler changes the fields and renders again. A handler is a closure made at some
  earlier rendering: it holds the context of that rendering and, for the buttons, its
  number of pages, so an event carries both. A page button exists for every number from 1
  to the number of pages.
\<close>

datatype event =
    UpdateView dataset
  | SearchInput dataset string
  | HeaderClick dataset string
  | PreviousClick dataset
  | NextClick dataset int
  | PageClick dataset int

fun handle :: "(string \<Rightarrow> string \<Rightarrow> int) \<Rightarrow> control \<Rightarrow> event \<Rightarrow> control" where
  "handle lc this (UpdateView ds) = fst (renderTable lc ds this)"
| "handle lc this (SearchInput ds text) =
     fst (renderTable lc ds (this\<lparr>searchInput := text, currentPage := 1\<rparr>))"
| "handle lc this (HeaderClick ds columnName) = fst (sortTable lc ds this columnName)"
| "handle lc this (PreviousClick ds) =
     (if currentPage this > 1
      then fst (renderTable lc ds (this\<lparr>currentPage := currentPage this - 1\<rparr>))
      else this)"
| "handle lc this (NextClick ds pages) =
     (if currentPage this < pages
      then fst (renderTable lc ds (this\<lparr>currentPage := currentPage this + 1\<rparr>))
      else this)"
| "handle lc this (PageClick ds i) =
     (if 1 \<le> i then fst (renderTable lc ds (this\<lparr>currentPage := i\<rparr>)) else this)"

definition run :: "(string \<Rightarrow> string \<Rightarrow> int) \<Rightarrow> event list \<Rightarrow> control" where
  "run lc evs = foldl (handle lc) initial evs"

fun isHeaderClick :: "event \<Rightarrow> bool" where
  "isHeaderClick (HeaderClick ds columnName) = True"
| "isHeaderClick ev = False"

section \<open>Notions of the specification\<close>

text \<open>
  A value contains a query as a case-insensitive substring when some contiguous part of
  the value equals the query up to the case of its letters.
\<close>

definition containsIgnoringCase :: "string \<Rightarrow> string \<Rightarrow> bool" where
  "containsIgnoringCase v q = (\<exists>s. sublist s v \<and> toLowerCase s = toLowerCase q)"

text \<open>
  Removing the highlight markers from a text: every occurrence of the opening and of the
  closing marker is dropped, from the left.
\<close>

function removeMarkers :: "string \<Rightarrow> string" where
  "removeMarkers [] = []"
| "removeMarkers (c # cs) =
     (if prefix openMarker (c # cs) then removeMarkers (drop (length openMarker) (c # cs))
      else if prefix closeMarker (c # cs) then removeMarkers (drop (length closeMarker) (c # cs))
      else c # removeMarkers cs)"
  by pat_completeness auto
termination
  by (relation "measure length") (auto simp add: openMarker_def closeMarker_def)

text \<open>The filter with the any-column branch alone.\<close>

definition filteredByColumnsAlone ::
  "(string \<Rightarrow> string \<Rightarrow> int) \<Rightarrow> dataset \<Rightarrow> control \<Rightarrow> string list" where
  "filteredByColumnsAlone localeCompare ds this =
     filter (matchesOtherFields ds (searchQuery this)) (sortedRecords localeCompare ds this)"

text \<open>
  A consistent comparison function, as ECMAScript requires of \<^verbatim>\<open>localeCompare\<close>: a string
  compares equal to itself, swapping the arguments swaps the sign, and "not greater" is
  transitive.
\<close>

definition consistent :: "(string \<Rightarrow> string \<Rightarrow> int) \<Rightarrow> bool" where
  "consistent localeCompare =
     ((\<forall>a. localeCompare a a = 0)
      \<and> (\<forall>a b. (localeCompare a b < 0) = (0 < localeCompare b a))
      \<and> (\<forall>a b c. localeCompare a b \<le> 0 \<longrightarrow> localeCompare b c \<le> 0 \<longrightarrow> localeCompare a c \<le> 0))"

section \<open>Example recordsets\<close>

text \<open>A comparison function for the examples: code unit order.\<close>

fun codeUnitCompare :: "string \<Rightarrow> string \<Rightarrow> int" where
  "codeUnitCompare [] [] = 0"
| "codeUnitCompare [] (d # ds) = -1"
| "codeUnitCompare (c # cs) [] = 1"
| "codeUnitCompare (c # cs) (d # ds) =
     (if (of_char c :: nat) < of_char d then -1
      else if (of_char d :: nat) < of_char c then 1
      else codeUnitCompare cs ds)"

definition contactColumns :: "column list" where
  "contactColumns =
     [\<lparr>name = ''fullname'', displayName = ''Full Name''\<rparr>,
      \<lparr>name = ''telephone1'', displayName = ''Phone''\<rparr>]"

text \<open>Three contacts; the second has no telephone number.\<close>

definition contactValues :: "string \<Rightarrow> string \<Rightarrow> string option" where
  "contactValues recordId col =
     (if recordId = ''r1'' \<and> col = ''fullname'' then Some ''Tara Young''
      else if recordId = ''r1'' \<and> col = ''telephone1'' then Some ''(555) 0100''
      else if recordId = ''r2'' \<and> col = ''fullname'' then Some ''Alice Smith''
      else if recordId = ''r3'' \<and> col = ''fullname'' then Some ''Bob Stone''
      else if recordId = ''r3'' \<and> col = ''telephone1'' then Some ''555 0199''
      else None)"

definition contacts :: dataset where
  "contacts = \<lparr>columns = contactColumns, sortedRecordIds = [''r1'', ''r2'', ''r3''],
                records = contactValues\<rparr>"

text \<open>Thirty records, named by one letter each, with the letter as the full name.\<close>

definition thirtyIds :: "string list" where
  "thirtyIds = map (\<lambda>c. [c]) ''ABCDEFGHIJKLMNOPQRSTUVWXYZabcd''"

definition thirty :: dataset where
  "thirty = \<lparr>columns = [\<lparr>name = ''fullname'', displayName = ''Full Name''\<rparr>],
              sortedRecordIds = thirtyIds,
              records = (\<lambda>recordId col. if col = ''fullname'' then Some recordId else None)\<rparr>"

text \<open>The contacts and a fourth record without any value.\<close>

definition contactsAndBlank :: dataset where
  "contactsAndBlank = \<lparr>columns = contactColumns, sortedRecordIds = [''r1'', ''r2'', ''r3'', ''r4''],
                        records = contactValues\<rparr>"

text \<open>A view that shows the telephone number only.\<close>

definition phonesOnly :: dataset where
  "phonesOnly = \<lparr>columns = [\<lparr>name = ''telephone1'', displayName = ''Phone''\<rparr>],
                  sortedRecordIds = [''r1'', ''r2'', ''r3''],
                  records = contactValues\<rparr>"

section \<open>How a rendering ends\<close>

lemma parsePattern_literal:
  "list_all (\<lambda>c. \<not> isSyntaxCharacter c) q \<Longrightarrow>
   parsePattern (q @ rest) cur outer = parsePattern rest (fst cur, rev (map Chr q) @ snd cur) outer"
proof (induction q arbitrary: cur)
  case Nil
  then show ?case by simp
next
  case (Cons c q)
  then have c: "\<not> isSyntaxCharacter c" and q: "list_all (\<lambda>c. \<not> isSyntaxCharacter c) q"
    by simp_all
  from c have "c \<noteq> CHR ''(''" "c \<noteq> CHR '')''" "c \<noteq> CHR ''|''" "c \<noteq> CHR ''*''" "c \<noteq> CHR ''+''"
    "c \<noteq> CHR ''?''" "c \<noteq> CHR ''.''" "c \<noteq> CHR 0x5C"
    by (auto simp add: isSyntaxCharacter_def)
  with c have "parsePattern ((c # q) @ rest) cur outer = parsePattern (q @ rest) (fst cur, Chr c # snd cur) outer"
    by simp
  with Cons.IH [OF q, of "(fst cur, Chr c # snd cur)"] show ?case
    by simp
qed

lemma closeAlternative_rev: "closeAlternative (rev ts) = foldr Seq ts Empty"
  by (simp add: closeAlternative_def foldr_conv_foldl)

lemma RegExp_literal:
  assumes "q \<noteq> []" "list_all (\<lambda>c. \<not> isSyntaxCharacter c) q"
  shows "RegExp (''('' @ q @ '')'') = Normal (Seq (Group (foldr Seq (map Chr q) Empty)) Empty)"
proof -
  from assms obtain d ds where q: "q = d # ds" "\<not> isSyntaxCharacter d"
    by (cases q) simp_all
  then have "d \<noteq> CHR ''?''"
    by (auto simp add: isSyntaxCharacter_def)
  then have "RegExp (''('' @ q @ '')'') = parsePattern (q @ '')'') ([], []) [([], [])]"
    by (simp add: RegExp_def q)
  also have "\<dots> = parsePattern '')'' ([], rev (map Chr q)) [([], [])]"
    using parsePattern_literal [OF assms(2), of "'')''" "([], [])"] by simp
  also have "\<dots> = Normal (Seq (Group (foldr Seq (map Chr q) Empty)) Empty)"
    by (simp add: closeDisjunction_def closeAlternative_rev) (simp add: closeAlternative_def)
  finally show ?thesis .
qed

lemma highlightText_literal:
  "list_all (\<lambda>c. \<not> isSyntaxCharacter c) q \<Longrightarrow> \<exists>out. highlightText v q = Normal out"
  using RegExp_literal [of q] by (cases "q = []") (simp_all add: highlightText_def)

lemma parsePattern_returns: "parsePattern p cur outer \<noteq> DOMException r"
  by (induction p cur outer rule: parsePattern.induct) (auto split: list.splits)

lemma highlightText_returns: "highlightText v q \<noteq> DOMException r"
  using parsePattern_returns [of "''('' @ q @ '')''" "([], [])" "[]"]
  by (auto simp add: highlightText_def RegExp_def split: completion.splits regex.splits)

lemma collect_returns:
  "(\<And>x r. x \<in> set xs \<Longrightarrow> x \<noteq> DOMException r) \<Longrightarrow> collect xs \<noteq> DOMException r"
  by (induction xs) (auto split: completion.splits)

lemma renderRow_returns: "renderRow ds q recordId \<noteq> DOMException r"
proof -
  have "collect (map (\<lambda>col. highlightText (orEmpty (records ds recordId (name col))) q) (columns ds))
      \<noteq> DOMException r'" for r'
    by (rule collect_returns) (auto simp add: highlightText_returns)
  then show ?thesis
    by (auto simp add: renderRow_def split: completion.splits)
qed

lemma rows_return:
  "collect (map (renderRow ds q) ids) \<noteq> DOMException r"
  by (rule collect_returns) (auto simp add: renderRow_returns)

lemma collect_Normal:
  "(\<And>x. x \<in> set xs \<Longrightarrow> \<exists>v. f x = Normal v) \<Longrightarrow> \<exists>vs. collect (map f xs) = Normal vs"
proof (induction xs)
  case Nil
  then show ?case by simp
next
  case (Cons x xs)
  then obtain v vs where "f x = Normal v" "collect (map f xs) = Normal vs"
    by (metis list.set_intros)
  then show ?case by simp
qed

lemma renderRow_literal:
  assumes "list_all (\<lambda>c. \<not> isSyntaxCharacter c) q"
  shows "\<exists>cells. renderRow ds q recordId = Normal (recordId, cells)"
proof -
  have "\<exists>cells. collect (map (\<lambda>col. highlightText (orEmpty (records ds recordId (name col))) q)
      (columns ds)) = Normal cells"
    by (rule collect_Normal) (rule highlightText_literal [OF assms])
  then show ?thesis
    by (auto simp add: renderRow_def)
qed

lemma collect_renderRow:
  "collect (map (renderRow ds q) ids) = Normal rs \<Longrightarrow> map fst rs = ids"
proof (induction ids arbitrary: rs)
  case Nil
  then show ?case by simp
next
  case (Cons r ids)
  then show ?case
    by (auto simp add: renderRow_def split: completion.splits)
qed

lemma rows_literal:
  assumes "list_all (\<lambda>c. \<not> isSyntaxCharacter c) q"
  shows "\<exists>rs. collect (map (renderRow ds q) ids) = Normal rs \<and> map fst rs = ids"
proof -
  have "\<exists>rs. collect (map (renderRow ds q) ids) = Normal rs"
    by (rule collect_Normal) (use renderRow_literal [OF assms] in blast)
  then show ?thesis
    using collect_renderRow by blast
qed

text \<open>
  What the run puts into the container once the rows are rendered, and how it ends: with
  the exception of the page controls, or with the controls appended.
\<close>

lemma renderTable_rows:
  assumes "collect (map (renderRow ds (searchQuery this)) (paginatedRecords lc ds this)) = Normal rs"
  shows "\<exists>r. (snd (renderTable lc ds this) = Normal r \<or> snd (renderTable lc ds this) = DOMException r)
      \<and> tableRows r = rs \<and> pageCount r = totalPages lc ds this
      \<and> headerCells r = map (\<lambda>col. (displayName col, getSortIndicator this (name col))) (columns ds)"
  using assms by (simp add: renderTable_def Let_def split: option.splits)

lemma renderTable_painted:
  assumes "snd (renderTable lc ds this) = Normal r \<or> snd (renderTable lc ds this) = DOMException r"
  shows "map fst (tableRows r) = paginatedRecords lc ds this \<and> pageCount r = totalPages lc ds this"
proof (cases "collect (map (renderRow ds (searchQuery this)) (paginatedRecords lc ds this))")
  case (Normal rs)
  then have "map fst rs = paginatedRecords lc ds this"
    by (rule collect_renderRow)
  with Normal assms show ?thesis
    by (auto simp add: renderTable_def Let_def split: option.splits)
next
  case SyntaxError
  with assms show ?thesis by (simp add: renderTable_def)
next
  case (DOMException x)
  with rows_return show ?thesis by blast
next
  case Unsupported
  with assms show ?thesis by (simp add: renderTable_def)
qed

lemma addPageButtons_all:
  "(\<And>i. i \<in> set xs \<Longrightarrow> i = current) \<Longrightarrow> addPageButtons current xs = Some xs"
  by (induction xs) simp_all

lemma addPageButtons_Some:
  "addPageButtons current xs = Some bs \<longleftrightarrow> (\<forall>i\<in>set xs. i = current) \<and> bs = xs"
proof
  show "addPageButtons current xs = Some bs \<Longrightarrow> (\<forall>i\<in>set xs. i = current) \<and> bs = xs"
    by (induction xs arbitrary: bs) (auto split: if_splits option.splits)
  show "(\<forall>i\<in>set xs. i = current) \<and> bs = xs \<Longrightarrow> addPageButtons current xs = Some bs"
    using addPageButtons_all [of xs current] by blast
qed

lemma renderPaginationControls_throws:
  "renderPaginationControls pages this = None \<longleftrightarrow> (\<exists>i. 1 \<le> i \<and> i \<le> pages \<and> i \<noteq> currentPage this)"
proof -
  have "addPageButtons (currentPage this) [1..pages] = None
      \<longleftrightarrow> \<not> (\<forall>i\<in>set [1..pages]. i = currentPage this)"
    using addPageButtons_Some [of "currentPage this" "[1..pages]"]
    by (cases "addPageButtons (currentPage this) [1..pages]") auto
  then show ?thesis
    by (auto simp add: renderPaginationControls_def split: option.splits)
qed

lemma renderPaginationControls_completes:
  "renderPaginationControls pages this \<noteq> None \<longleftrightarrow> pages \<le> 0 \<or> (pages = 1 \<and> currentPage this = 1)"
proof -
  have "(\<exists>i. 1 \<le> i \<and> i \<le> pages \<and> i \<noteq> currentPage this)
      \<longleftrightarrow> \<not> (pages \<le> 0 \<or> (pages = 1 \<and> currentPage this = 1))"
  proof
    assume "\<exists>i. 1 \<le> i \<and> i \<le> pages \<and> i \<noteq> currentPage this"
    then show "\<not> (pages \<le> 0 \<or> (pages = 1 \<and> currentPage this = 1))"
      by auto
  next
    assume n: "\<not> (pages \<le> 0 \<or> (pages = 1 \<and> currentPage this = 1))"
    show "\<exists>i. 1 \<le> i \<and> i \<le> pages \<and> i \<noteq> currentPage this"
    proof (cases "currentPage this = 1")
      case True
      with n have "1 \<le> (2::int) \<and> 2 \<le> pages \<and> 2 \<noteq> currentPage this" by auto
      then show ?thesis by blast
    next
      case False
      with n have "1 \<le> (1::int) \<and> 1 \<le> pages \<and> 1 \<noteq> currentPage this" by auto
      then show ?thesis by blast
    qed
  qed
  then show ?thesis
    using renderPaginationControls_throws [of pages this] by simp
qed

section \<open>Pagination\<close>

lemma totalPages_ceiling:
  "totalPages lc ds this = \<lceil>real_of_int (totalRecords lc ds this) / 13\<rceil>"
proof -
  have "\<lceil>real_of_int (totalRecords lc ds this) / real_of_int 13\<rceil> = - (- totalRecords lc ds this div 13)"
    by (rule ceiling_divide_eq_div)
  also have "\<dots> = (totalRecords lc ds this + 13 - 1) div 13"
    by linarith
  finally show ?thesis
    by (simp add: totalPages_def recordsPerPage_def)
qed

lemma totalRecords_nonneg: "0 \<le> totalRecords lc ds this"
  by (simp add: totalRecords_def)

lemma totalPages_nonneg: "0 \<le> totalPages lc ds this"
  using totalRecords_nonneg [of lc ds this]
  by (simp add: totalPages_def recordsPerPage_def)

lemma totalPages_bounds:
  "13 * (totalPages lc ds this - 1) < totalRecords lc ds this \<or> totalRecords lc ds this = 0"
  "totalRecords lc ds this \<le> 13 * totalPages lc ds this"
  using totalRecords_nonneg [of lc ds this]
  by (simp_all add: totalPages_def recordsPerPage_def) presburger+

lemma clampPage_upper: "0 \<le> pages \<Longrightarrow> clampPage requested pages \<le> max pages 1"
  by (auto simp add: clampPage_def Let_def min_def max_def)

lemma clampPage_lower: "0 \<le> pages \<Longrightarrow> 0 \<le> requested \<Longrightarrow> 1 \<le> clampPage requested pages"
  by (simp add: clampPage_def Let_def min_def)

lemma clampPage_nearest:
  "0 \<le> pages \<Longrightarrow> 0 \<le> requested \<Longrightarrow> clampPage requested pages = max 1 (min requested (max pages 1))"
  by (simp add: clampPage_def Let_def min_def max_def)

lemma slice_page:
  assumes "0 \<le> start" "0 \<le> n"
  shows "slice xs start (start + n) = take (nat n) (drop (nat start) xs)"
proof -
  consider (inside) "start + n \<le> int (length xs)"
    | (overlap) "start \<le> int (length xs)" "int (length xs) < start + n"
    | (beyond) "int (length xs) < start"
    by linarith
  then show ?thesis
  proof cases
    case inside
    then have "nat (min (start + n) (int (length xs)) - min start (int (length xs))) = nat n"
      using assms by (simp add: min_def)
    then show ?thesis using assms inside
      by (simp add: slice_def Let_def min_def)
  next
    case overlap
    then have "length (drop (nat start) xs) \<le> nat n"
      using assms by simp
    moreover have "nat (min (start + n) (int (length xs)) - min start (int (length xs)))
        = length (drop (nat start) xs)"
      using assms overlap by (simp add: min_def nat_diff_distrib')
    ultimately show ?thesis using assms overlap
      by (simp add: slice_def Let_def min_def)
  next
    case beyond
    then show ?thesis using assms
      by (simp add: slice_def Let_def min_def)
  qed
qed

lemma includes_str_empty [simp]: "includes_str s []"
  by (cases s) simp_all

lemma thirty_filtered:
  "searchInput this = [] \<Longrightarrow> currentSortColumn this = None \<Longrightarrow>
   filteredRecords lc thirty this = thirtyIds"
  by (simp add: filteredRecords_def sortedRecords_def thirty_def matchesFullName_def
      searchQuery_def trim_def toLowerCase_def)

lemma thirty_totalPages:
  "searchInput this = [] \<Longrightarrow> currentSortColumn this = None \<Longrightarrow> totalPages lc thirty this = 3"
  by (simp add: totalPages_def totalRecords_def thirty_filtered thirtyIds_def recordsPerPage_def)

lemma renderTable_completes:
  assumes "list_all (\<lambda>c. \<not> isSyntaxCharacter c) (searchQuery this)" and "1 \<le> newCurrentPage lc ds this"
  shows "(\<exists>r. snd (renderTable lc ds this) = Normal r) \<longleftrightarrow> totalPages lc ds this \<le> 1"
proof -
  let ?after = "this\<lparr>currentPage := newCurrentPage lc ds this\<rparr>"
  obtain rs where rs: "collect (map (renderRow ds (searchQuery this)) (paginatedRecords lc ds this)) = Normal rs"
    using rows_literal [OF assms(1)] by blast
  have "newCurrentPage lc ds this \<le> max (totalPages lc ds this) 1"
    unfolding newCurrentPage_def by (rule clampPage_upper) (rule totalPages_nonneg)
  with assms(2) have "totalPages lc ds this \<le> 0 \<or> (totalPages lc ds this = 1 \<and> currentPage ?after = 1)
      \<longleftrightarrow> totalPages lc ds this \<le> 1"
    using totalPages_nonneg [of lc ds this] by auto
  then have "renderPaginationControls (totalPages lc ds this) ?after \<noteq> None \<longleftrightarrow> totalPages lc ds this \<le> 1"
    using renderPaginationControls_completes [of "totalPages lc ds this" ?after] by simp
  then show ?thesis
    using rs by (auto simp add: renderTable_def Let_def split: option.splits)
qed

text \<open>
  C3. With the page size 13, the number of pages is the ceiling of the number of filtered
  records divided by 13. Whenever the page the rendering settles on is a clamped page (at
  least 1), the rows of the page are the contiguous slice of the filtered and sorted
  records from index 13 (page - 1) up to 13 page, their number is the minimum of 13 and
  what is left from that index on, and there is no row when nothing passes the filter.
  For every query without syntax characters (the empty query included) the rendering
  appends a table with exactly these rows and hands this number of pages to the page
  controls; it then returns or, with two or more pages, ends with the exception of the
  page controls (\<open>renderTable_completes\<close>). Whatever run gets as far as the table has
  painted these rows.
\<close>

theorem pagination:
  assumes "1 \<le> newCurrentPage lc ds this"
  shows "totalPages lc ds this = \<lceil>real_of_int (totalRecords lc ds this) / 13\<rceil>
    \<and> paginatedRecords lc ds this =
        take 13 (drop (nat ((newCurrentPage lc ds this - 1) * 13)) (filteredRecords lc ds this))
    \<and> int (length (paginatedRecords lc ds this)) =
        min 13 (totalRecords lc ds this - (newCurrentPage lc ds this - 1) * 13)
    \<and> (totalRecords lc ds this = 0 \<longrightarrow> paginatedRecords lc ds this = [])
    \<and> currentPage (fst (renderTable lc ds this)) = newCurrentPage lc ds this
    \<and> (list_all (\<lambda>c. \<not> isSyntaxCharacter c) (searchQuery this) \<longrightarrow>
          (\<exists>r. (snd (renderTable lc ds this) = Normal r \<or> snd (renderTable lc ds this) = DOMException r)
               \<and> map fst (tableRows r) = paginatedRecords lc ds this
               \<and> pageCount r = totalPages lc ds this))
    \<and> (\<forall>r. snd (renderTable lc ds this) = Normal r \<or> snd (renderTable lc ds this) = DOMException r \<longrightarrow>
          map fst (tableRows r) = paginatedRecords lc ds this
          \<and> pageCount r = totalPages lc ds this)"
proof -
  let ?p = "newCurrentPage lc ds this"
  let ?n = "totalRecords lc ds this"
  have start: "0 \<le> (?p - 1) * 13" using assms by simp
  have rows: "paginatedRecords lc ds this =
      take 13 (drop (nat ((?p - 1) * 13)) (filteredRecords lc ds this))"
    using slice_page [OF start, of 13 "filteredRecords lc ds this"]
    by (simp add: paginatedRecords_def startIndex_def recordsPerPage_def)
  have upper: "?p \<le> max (totalPages lc ds this) 1"
    unfolding newCurrentPage_def by (rule clampPage_upper) (rule totalPages_nonneg)
  have none: "?n = 0 \<Longrightarrow> totalPages lc ds this = 0"
    by (simp add: totalPages_def recordsPerPage_def)
  have inside: "(?p - 1) * 13 \<le> ?n"
    using upper assms totalPages_bounds(1) [of lc ds this] none totalRecords_nonneg [of lc ds this]
    by (cases "?n = 0") (auto simp add: max_def split: if_splits)
  have len: "int (length (paginatedRecords lc ds this)) = min 13 (?n - (?p - 1) * 13)"
  proof -
    have "int (length (paginatedRecords lc ds this)) =
        int (min (length (filteredRecords lc ds this) - nat ((?p - 1) * 13)) 13)"
      by (simp add: rows)
    also have "\<dots> = min 13 (?n - (?p - 1) * 13)"
      using inside start unfolding totalRecords_def by linarith
    finally show ?thesis .
  qed
  have empty: "?n = 0 \<longrightarrow> paginatedRecords lc ds this = []"
    by (simp add: rows totalRecords_def)
  have page: "currentPage (fst (renderTable lc ds this)) = ?p"
    by (simp add: renderTable_def)
  have table: "list_all (\<lambda>c. \<not> isSyntaxCharacter c) (searchQuery this) \<longrightarrow>
      (\<exists>r. (snd (renderTable lc ds this) = Normal r \<or> snd (renderTable lc ds this) = DOMException r)
           \<and> map fst (tableRows r) = paginatedRecords lc ds this
           \<and> pageCount r = totalPages lc ds this)"
  proof
    assume "list_all (\<lambda>c. \<not> isSyntaxCharacter c) (searchQuery this)"
    then obtain rs where
      "collect (map (renderRow ds (searchQuery this)) (paginatedRecords lc ds this)) = Normal rs"
      "map fst rs = paginatedRecords lc ds this"
      using rows_literal by blast
    then show "\<exists>r. (snd (renderTable lc ds this) = Normal r \<or> snd (renderTable lc ds this) = DOMException r)
           \<and> map fst (tableRows r) = paginatedRecords lc ds this
           \<and> pageCount r = totalPages lc ds this"
      using renderTable_rows [of ds this lc rs] by auto
  qed
  have shown: "\<forall>r. snd (renderTable lc ds this) = Normal r \<or> snd (renderTable lc ds this) = DOMException r \<longrightarrow>
      map fst (tableRows r) = paginatedRecords lc ds this \<and> pageCount r = totalPages lc ds this"
    using renderTable_painted by blast
  show ?thesis
    using totalPages_ceiling rows len empty page table shown by blast
qed

theorem pagination_witness:
  "1 \<le> newCurrentPage codeUnitCompare thirty (initial\<lparr>currentPage := 5\<rparr>)
   \<and> totalPages codeUnitCompare thirty (initial\<lparr>currentPage := 5\<rparr>) = 3
   \<and> currentPage (fst (renderTable codeUnitCompare thirty (initial\<lparr>currentPage := 5\<rparr>))) = 3
   \<and> paginatedRecords codeUnitCompare thirty (initial\<lparr>currentPage := 5\<rparr>) = [''a'', ''b'', ''c'', ''d'']
   \<and> snd (renderTable codeUnitCompare thirty (initial\<lparr>currentPage := 5\<rparr>))
       = DOMException \<lparr>headerCells = [(''Full Name'', NoIndicator)],
                        tableRows = [(''a'', [''a'']), (''b'', [''b'']), (''c'', [''c'']), (''d'', [''d''])],
                        pageCount = 3,
                        paginationControls = None\<rparr>
   \<and> snd (renderTable codeUnitCompare contacts initial)
       = Normal \<lparr>headerCells = [(''Full Name'', NoIndicator), (''Phone'', NoIndicator)],
                  tableRows = [(''r1'', [''Tara Young'', ''(555) 0100'']),
                               (''r2'', [''Alice Smith'', []]),
                               (''r3'', [''Bob Stone'', ''555 0199''])],
                  pageCount = 1,
                  paginationControls =
                    Some \<lparr>previousDisabled = True, pageButtons = [1], nextDisabled = True\<rparr>\<rparr>"
proof -
  let ?far = "initial\<lparr>currentPage := 5\<rparr>"
  have i: "searchInput ?far = []" "currentSortColumn ?far = None"
    by (simp_all add: initial_def)
  have p: "newCurrentPage codeUnitCompare thirty ?far = 3"
    by (simp add: newCurrentPage_def thirty_totalPages [OF i] clampPage_def)
  have q: "list_all (\<lambda>c. \<not> isSyntaxCharacter c) (searchQuery ?far)"
    "list_all (\<lambda>c. \<not> isSyntaxCharacter c) (searchQuery initial)"
    by (simp_all add: searchQuery_def initial_def trim_def toLowerCase_def)
  have one: "1 \<le> newCurrentPage codeUnitCompare contacts initial"
    by code_simp
  have far: "snd (renderTable codeUnitCompare thirty ?far)
       = DOMException \<lparr>headerCells = [(''Full Name'', NoIndicator)],
                        tableRows = [(''a'', [''a'']), (''b'', [''b'']), (''c'', [''c'']), (''d'', [''d''])],
                        pageCount = 3,
                        paginationControls = None\<rparr>"
    by code_simp
  have near: "snd (renderTable codeUnitCompare contacts initial)
       = Normal \<lparr>headerCells = [(''Full Name'', NoIndicator), (''Phone'', NoIndicator)],
                  tableRows = [(''r1'', [''Tara Young'', ''(555) 0100'']),
                               (''r2'', [''Alice Smith'', []]),
                               (''r3'', [''Bob Stone'', ''555 0199''])],
                  pageCount = 1,
                  paginationControls =
                    Some \<lparr>previousDisabled = True, pageButtons = [1], nextDisabled = True\<rparr>\<rparr>"
    by code_simp
  let ?table = "\<lparr>headerCells = [(''Full Name'', NoIndicator)],
                 tableRows = [(''a'', [''a'']), (''b'', [''b'']), (''c'', [''c'']), (''d'', [''d''])],
                 pageCount = 3,
                 paginationControls = None\<rparr>"
  have ge: "1 \<le> newCurrentPage codeUnitCompare thirty ?far"
    by (simp add: p)
  note settled = pagination [OF ge]
  have page: "currentPage (fst (renderTable codeUnitCompare thirty ?far)) = 3"
    using settled p by simp
  have "map fst (tableRows ?table) = paginatedRecords codeUnitCompare thirty ?far
      \<and> pageCount ?table = totalPages codeUnitCompare thirty ?far"
    using settled far by blast
  then have rows: "paginatedRecords codeUnitCompare thirty ?far = [''a'', ''b'', ''c'', ''d'']"
    and pages: "totalPages codeUnitCompare thirty ?far = 3"
    by simp_all
  have "\<exists>r. (snd (renderTable codeUnitCompare contacts initial) = Normal r
        \<or> snd (renderTable codeUnitCompare contacts initial) = DOMException r)
      \<and> map fst (tableRows r) = paginatedRecords codeUnitCompare contacts initial
      \<and> pageCount r = totalPages codeUnitCompare contacts initial"
    using pagination [OF one] q(2) by blast
  then show ?thesis
    using ge page rows pages far near by blast
qed

lemma steps_currentPage [simp]:
  "sortedRecords lc ds (this\<lparr>currentPage := x\<rparr>) = sortedRecords lc ds this"
  "searchQuery (this\<lparr>currentPage := x\<rparr>) = searchQuery this"
  "filteredRecords lc ds (this\<lparr>currentPage := x\<rparr>) = filteredRecords lc ds this"
  "totalRecords lc ds (this\<lparr>currentPage := x\<rparr>) = totalRecords lc ds this"
  "totalPages lc ds (this\<lparr>currentPage := x\<rparr>) = totalPages lc ds this"
  "getSortIndicator (this\<lparr>currentPage := x\<rparr>) c = getSortIndicator this c"
  by (simp_all add: sortedRecords_def searchQuery_def filteredRecords_def totalRecords_def
      totalPages_def getSortIndicator_def split: option.splits)

lemma clampPage_idem:
  "0 \<le> pages \<Longrightarrow> 0 \<le> requested \<Longrightarrow>
   clampPage (max 1 (min requested (max pages 1))) pages = clampPage requested pages"
  by (simp add: clampPage_def Let_def min_def max_def)

text \<open>No sequence of events leads to a page below 1.\<close>

lemma renderTable_page:
  "0 \<le> currentPage this \<Longrightarrow> 1 \<le> currentPage (fst (renderTable lc ds this))"
  using clampPage_lower [OF totalPages_nonneg, of "currentPage this" lc ds this]
  by (simp add: renderTable_def newCurrentPage_def)

lemma handle_page: "1 \<le> currentPage this \<Longrightarrow> 1 \<le> currentPage (handle lc this ev)"
  by (cases ev) (simp_all add: renderTable_page sortTable_def)

lemma foldl_handle_page:
  "1 \<le> currentPage this \<Longrightarrow> 1 \<le> currentPage (foldl (handle lc) this evs)"
  by (induction evs arbitrary: this) (simp_all add: handle_page)

lemma run_page: "1 \<le> currentPage (run lc evs)"
  unfolding run_def by (rule foldl_handle_page) (simp add: initial_def)

text \<open>
  C4. The page a rendering starts from is the value of \<^verbatim>\<open>currentPage\<close>, a private field
  that starts at 1 and that the handlers alone assign; after every sequence of events it is
  at least 1. For every requested page from 0 on (the requests above the number of pages
  included) the page the rendering settles on lies between 1 and the maximum of the number
  of pages and 1, it is the in-range page nearest to the request, and requesting that page
  outright renders the same and leaves the same control. So every rendering of a control
  that the events have led to settles on a page within these bounds.
\<close>

theorem page_clamp:
  "1 \<le> currentPage (run lc evs)
   \<and> 1 \<le> currentPage (fst (renderTable lc ds (run lc evs)))
   \<and> currentPage (fst (renderTable lc ds (run lc evs))) \<le> max (totalPages lc ds (run lc evs)) 1
   \<and> (0 \<le> currentPage this \<longrightarrow>
        1 \<le> newCurrentPage lc ds this
        \<and> newCurrentPage lc ds this \<le> max (totalPages lc ds this) 1
        \<and> newCurrentPage lc ds this = max 1 (min (currentPage this) (max (totalPages lc ds this) 1))
        \<and> currentPage (fst (renderTable lc ds this)) = newCurrentPage lc ds this
        \<and> renderTable lc ds (this\<lparr>currentPage := max 1 (min (currentPage this) (max (totalPages lc ds this) 1))\<rparr>)
            = renderTable lc ds this)"
proof -
  have request: "1 \<le> newCurrentPage lc ds that
      \<and> newCurrentPage lc ds that \<le> max (totalPages lc ds that) 1
      \<and> newCurrentPage lc ds that = max 1 (min (currentPage that) (max (totalPages lc ds that) 1))
      \<and> currentPage (fst (renderTable lc ds that)) = newCurrentPage lc ds that
      \<and> renderTable lc ds (that\<lparr>currentPage := max 1 (min (currentPage that) (max (totalPages lc ds that) 1))\<rparr>)
          = renderTable lc ds that" if that: "0 \<le> currentPage that" for that
  proof -
    let ?near = "max 1 (min (currentPage that) (max (totalPages lc ds that) 1))"
    have tp: "0 \<le> totalPages lc ds that" by (rule totalPages_nonneg)
    have same: "newCurrentPage lc ds (that\<lparr>currentPage := ?near\<rparr>) = newCurrentPage lc ds that"
      using clampPage_idem [OF tp that] by (simp add: newCurrentPage_def)
    have "renderTable lc ds (that\<lparr>currentPage := ?near\<rparr>) = renderTable lc ds that"
      by (simp add: renderTable_def paginatedRecords_def startIndex_def same cong: completion.case_cong)
    then show ?thesis
      using clampPage_lower [OF tp that] clampPage_upper [OF tp, of "currentPage that"]
        clampPage_nearest [OF tp that]
      by (simp add: newCurrentPage_def renderTable_def)
  qed
  have reached: "1 \<le> currentPage (run lc evs)"
    by (rule run_page)
  then have "0 \<le> currentPage (run lc evs)"
    by simp
  from request [OF this] reached request show ?thesis
    by simp
qed

theorem page_clamp_witness:
  "currentPage (run codeUnitCompare [UpdateView thirty, PageClick thirty 3, UpdateView contacts]) = 1
   \<and> newCurrentPage codeUnitCompare thirty (initial\<lparr>currentPage := 5\<rparr>) = 3
   \<and> newCurrentPage codeUnitCompare thirty (initial\<lparr>currentPage := 0\<rparr>) = 1
   \<and> renderTable codeUnitCompare thirty (initial\<lparr>currentPage := 3\<rparr>)
       = renderTable codeUnitCompare thirty (initial\<lparr>currentPage := 5\<rparr>)"
proof -
  have moved: "currentPage (run codeUnitCompare [UpdateView thirty, PageClick thirty 3, UpdateView contacts]) = 1"
    by code_simp
  show ?thesis
    using moved
      page_clamp [of codeUnitCompare "[UpdateView thirty, PageClick thirty 3, UpdateView contacts]" thirty
        "initial\<lparr>currentPage := 5\<rparr>"]
      page_clamp [of codeUnitCompare "[]" thirty "initial\<lparr>currentPage := 0\<rparr>"]
    by (simp add: thirty_totalPages initial_def)
qed

text \<open>
  A negative value of the field, which no sequence of events produces, would be kept: the
  minimum of it and the number of pages is then negative, hence not 0.
\<close>

lemma negative_page_kept:
  "newCurrentPage codeUnitCompare thirty (initial\<lparr>currentPage := - 1\<rparr>) = - 1"
  by (simp add: newCurrentPage_def clampPage_def thirty_totalPages initial_def)

section \<open>Filtering\<close>



lemma mset_insert_by: "mset (insert_by cmp x ys) = add_mset x (mset ys)"
  by (induction ys) simp_all

lemma mset_sort_by: "mset (sort_by cmp xs) = mset xs"
  by (induction xs) (simp_all add: sort_by_def mset_insert_by)

lemma mset_sortedRecords: "mset (sortedRecords lc ds this) = mset (sortedRecordIds ds)"
  by (simp add: sortedRecords_def mset_sort_by split: option.splits)

lemma set_sortedRecords: "set (sortedRecords lc ds this) = set (sortedRecordIds ds)"
  using mset_sortedRecords [of lc ds this] by (metis set_mset_mset)











text \<open>
  C7, as amended. When \<^verbatim>\<open>fullname\<close> is one of the declared columns, and the query is not
  empty or every record has a full name, the filter with both branches keeps exactly the
  records that the any-column branch alone keeps.
\<close>

theorem columns_alone_agree:
  assumes "''fullname'' \<in> name ` set (columns ds)"
    and "searchQuery this \<noteq> [] \<or> (\<forall>recordId\<in>set (sortedRecordIds ds). records ds recordId ''fullname'' \<noteq> None)"
  shows "filteredRecords lc ds this = filteredByColumnsAlone lc ds this"
  unfolding filteredRecords_def filteredByColumnsAlone_def
proof (rule filter_cong)
  fix r
  assume "r \<in> set (sortedRecords lc ds this)"
  then have r: "r \<in> set (sortedRecordIds ds)"
    by (simp add: set_sortedRecords)
  have "matchesOtherFields ds (searchQuery this) r" if m: "matchesFullName ds (searchQuery this) r"
  proof (cases "records ds r ''fullname''")
    case None
    with m have "searchQuery this = []"
      by (simp add: matchesFullName_def orEmpty_def)
    with assms(2) r None show ?thesis by auto
  next
    case (Some v)
    with m have "includes_str (toLowerCase v) (searchQuery this)"
      by (simp add: matchesFullName_def orEmpty_def)
    moreover from assms(1) obtain col where "col \<in> set (columns ds)" "name col = ''fullname''"
      by auto
    ultimately show ?thesis using Some
      by (auto simp add: matchesOtherFields_def list_ex_iff intro!: bexI [of _ col])
  qed
  then show "(matchesFullName ds (searchQuery this) r \<or> matchesOtherFields ds (searchQuery this) r)
      = matchesOtherFields ds (searchQuery this) r"
    by blast
qed simp

theorem columns_alone_agree_witness:
  "''fullname'' \<in> name ` set (columns contacts)
   \<and> searchQuery (initial\<lparr>searchInput := '' TARA ''\<rparr>) \<noteq> []
   \<and> filteredRecords codeUnitCompare contacts (initial\<lparr>searchInput := '' TARA ''\<rparr>)
       = filteredByColumnsAlone codeUnitCompare contacts (initial\<lparr>searchInput := '' TARA ''\<rparr>)"
proof -
  have c: "''fullname'' \<in> name ` set (columns contacts)"
    by (simp add: contacts_def contactColumns_def)
  have q: "searchQuery (initial\<lparr>searchInput := '' TARA ''\<rparr>) \<noteq> []"
    by code_simp
  show ?thesis
    using c q columns_alone_agree [of contacts "initial\<lparr>searchInput := '' TARA ''\<rparr>" codeUnitCompare]
    by blast
qed

text \<open>
  Without these conditions the full-name branch is not redundant: it finds a full name
  that the view does not show as a column, and on the empty query it keeps a record
  without any value, which the any-column branch alone drops.
\<close>

theorem columns_alone_counterexample:
  "filteredRecords codeUnitCompare phonesOnly (initial\<lparr>searchInput := ''tara''\<rparr>)
     \<noteq> filteredByColumnsAlone codeUnitCompare phonesOnly (initial\<lparr>searchInput := ''tara''\<rparr>)
   \<and> filteredRecords codeUnitCompare contactsAndBlank initial
     \<noteq> filteredByColumnsAlone codeUnitCompare contactsAndBlank initial"
  by code_simp

section \<open>The query in its normal form\<close>

lemma steps_searchInput:
  assumes "toLowerCase (trim a) = toLowerCase (trim b)"
  shows "searchQuery (this\<lparr>searchInput := a\<rparr>) = searchQuery (this\<lparr>searchInput := b\<rparr>)"
    "sortedRecords lc ds (this\<lparr>searchInput := a\<rparr>) = sortedRecords lc ds (this\<lparr>searchInput := b\<rparr>)"
    "filteredRecords lc ds (this\<lparr>searchInput := a\<rparr>) = filteredRecords lc ds (this\<lparr>searchInput := b\<rparr>)"
    "totalPages lc ds (this\<lparr>searchInput := a\<rparr>) = totalPages lc ds (this\<lparr>searchInput := b\<rparr>)"
    "newCurrentPage lc ds (this\<lparr>searchInput := a\<rparr>) = newCurrentPage lc ds (this\<lparr>searchInput := b\<rparr>)"
    "paginatedRecords lc ds (this\<lparr>searchInput := a\<rparr>) = paginatedRecords lc ds (this\<lparr>searchInput := b\<rparr>)"
  using assms
  by (simp_all add: searchQuery_def sortedRecords_def filteredRecords_def totalPages_def
      totalRecords_def newCurrentPage_def paginatedRecords_def startIndex_def
      split: option.splits)

text \<open>
  C10. Two texts of the search input that are equal after trimming and lower-casing render
  the same: the same filtered records, the same number of pages and page, the same rows and
  the same highlighted cells, or the same failure.
\<close>

theorem query_normal_form:
  assumes "toLowerCase (trim a) = toLowerCase (trim b)"
  shows "snd (renderTable lc ds (this\<lparr>searchInput := a\<rparr>)) = snd (renderTable lc ds (this\<lparr>searchInput := b\<rparr>))
    \<and> currentPage (fst (renderTable lc ds (this\<lparr>searchInput := a\<rparr>)))
        = currentPage (fst (renderTable lc ds (this\<lparr>searchInput := b\<rparr>)))
    \<and> filteredRecords lc ds (this\<lparr>searchInput := a\<rparr>) = filteredRecords lc ds (this\<lparr>searchInput := b\<rparr>)
    \<and> totalPages lc ds (this\<lparr>searchInput := a\<rparr>) = totalPages lc ds (this\<lparr>searchInput := b\<rparr>)
    \<and> paginatedRecords lc ds (this\<lparr>searchInput := a\<rparr>) = paginatedRecords lc ds (this\<lparr>searchInput := b\<rparr>)"
proof -
  have controls: "renderPaginationControls pages (this\<lparr>searchInput := a, currentPage := p\<rparr>)
      = renderPaginationControls pages (this\<lparr>searchInput := b, currentPage := p\<rparr>)" for pages p
    by (simp add: renderPaginationControls_def split: option.splits)
  have indicator: "getSortIndicator (this\<lparr>searchInput := x\<rparr>) c = getSortIndicator this c" for x c
    by (simp add: getSortIndicator_def)
  show ?thesis
    by (simp add: renderTable_def steps_searchInput [OF assms] controls indicator
        cong: completion.case_cong)
qed

theorem query_normal_form_witness:
  "toLowerCase (trim '' TARA '') = toLowerCase (trim ''tara'')
   \<and> snd (renderTable codeUnitCompare contacts (initial\<lparr>searchInput := '' TARA ''\<rparr>))
       = snd (renderTable codeUnitCompare contacts (initial\<lparr>searchInput := ''tara''\<rparr>))"
proof -
  have n: "toLowerCase (trim '' TARA '') = toLowerCase (trim ''tara'')"
    by code_simp
  show ?thesis
    using n query_normal_form [OF n, of codeUnitCompare contacts initial]
    by blast
qed

section \<open>The header click and the sort indicator\<close>

lemma renderTable_control:
  "fst (renderTable lc ds this) = this\<lparr>currentPage := newCurrentPage lc ds this\<rparr>"
  by (simp add: renderTable_def)

text \<open>
  C8. A click on the header of column C: if C is the sort column already, the direction
  is negated and the sort column stays; otherwise C becomes the sort column and the
  direction becomes ascending. The text of the search input is left as it is.
\<close>

theorem sortTable_transition:
  "(currentSortColumn this = Some C \<longrightarrow>
      isAscending (fst (sortTable lc ds this C)) = (\<not> isAscending this)
      \<and> currentSortColumn (fst (sortTable lc ds this C)) = currentSortColumn this)
   \<and> (currentSortColumn this \<noteq> Some C \<longrightarrow>
      currentSortColumn (fst (sortTable lc ds this C)) = Some C
      \<and> isAscending (fst (sortTable lc ds this C)) = True)
   \<and> searchInput (fst (sortTable lc ds this C)) = searchInput this"
  by (simp add: sortTable_def renderTable_control)

theorem sortTable_transition_witness:
  "currentSortColumn (fst (sortTable codeUnitCompare contacts initial ''fullname'')) = Some ''fullname''
   \<and> isAscending (fst (sortTable codeUnitCompare contacts initial ''fullname''))
   \<and> currentSortColumn (fst (sortTable codeUnitCompare contacts
         (fst (sortTable codeUnitCompare contacts initial ''fullname'')) ''fullname'')) = Some ''fullname''
   \<and> \<not> isAscending (fst (sortTable codeUnitCompare contacts
         (fst (sortTable codeUnitCompare contacts initial ''fullname'')) ''fullname''))"
  using sortTable_transition [of initial "''fullname''" codeUnitCompare contacts]
    sortTable_transition [of "fst (sortTable codeUnitCompare contacts initial ''fullname'')" "''fullname''" codeUnitCompare contacts]
  by (simp add: initial_def)

lemma handle_sortColumn:
  "\<not> isHeaderClick ev \<Longrightarrow> currentSortColumn (handle lc this ev) = currentSortColumn this"
  by (cases ev) (simp_all add: renderTable_control)

lemma foldl_handle_sortColumn:
  "\<not> list_ex isHeaderClick evs \<Longrightarrow>
   currentSortColumn (foldl (handle lc) this evs) = currentSortColumn this"
  by (induction evs arbitrary: this) (simp_all add: handle_sortColumn)

text \<open>
  C9. In every state of the control the indicator of column C is the ascending mark
  exactly when C is the sort column and the direction is ascending, the descending mark
  exactly when C is the sort column and the direction is descending, and none exactly
  when C is not the sort column; so two columns that both carry a mark have the same
  name. After any sequence of events without a header click every column's indicator is
  none.
\<close>

theorem sort_indicator:
  "(getSortIndicator this C = UpTriangle \<longleftrightarrow> currentSortColumn this = Some C \<and> isAscending this)
   \<and> (getSortIndicator this C = DownTriangle \<longleftrightarrow> currentSortColumn this = Some C \<and> \<not> isAscending this)
   \<and> (getSortIndicator this C = NoIndicator \<longleftrightarrow> currentSortColumn this \<noteq> Some C)
   \<and> (getSortIndicator this C \<noteq> NoIndicator \<and> getSortIndicator this D \<noteq> NoIndicator \<longrightarrow> C = D)
   \<and> (\<not> list_ex isHeaderClick evs \<longrightarrow> getSortIndicator (run lc evs) C = NoIndicator)"
proof -
  have "\<not> list_ex isHeaderClick evs \<longrightarrow> currentSortColumn (run lc evs) = None"
    by (simp add: run_def foldl_handle_sortColumn initial_def)
  then show ?thesis
    by (auto simp add: getSortIndicator_def)
qed

theorem sort_indicator_witness:
  "\<not> list_ex isHeaderClick [UpdateView contacts, SearchInput contacts ''tara'', PageClick contacts 2]
   \<and> getSortIndicator
        (run codeUnitCompare [UpdateView contacts, SearchInput contacts ''tara'', PageClick contacts 2])
        ''fullname'' = NoIndicator
   \<and> getSortIndicator (run codeUnitCompare [UpdateView contacts, HeaderClick contacts ''fullname''])
        ''fullname'' = UpTriangle
   \<and> getSortIndicator (run codeUnitCompare [UpdateView contacts, HeaderClick contacts ''fullname''])
        ''telephone1'' = NoIndicator"
proof -
  let ?quiet = "[UpdateView contacts, SearchInput contacts ''tara'', PageClick contacts 2]"
  let ?clicked = "run codeUnitCompare [UpdateView contacts, HeaderClick contacts ''fullname'']"
  have q: "\<not> list_ex isHeaderClick ?quiet"
    by simp
  have c: "currentSortColumn ?clicked = Some ''fullname''" "isAscending ?clicked"
    by (simp_all add: run_def sortTable_def renderTable_control initial_def)
  show ?thesis
    using q c sort_indicator [of _ "''fullname''" "''fullname''" ?quiet codeUnitCompare]
      sort_indicator [of ?clicked "''fullname''" "''telephone1''" "[]" codeUnitCompare]
      sort_indicator [of ?clicked "''telephone1''" "''fullname''" "[]" codeUnitCompare]
    by simp
qed

section \<open>Sorting\<close>

lemma consistent_refl: "consistent cmp \<Longrightarrow> cmp a a = 0"
  by (simp add: consistent_def)

lemma consistent_swap: "consistent cmp \<Longrightarrow> (cmp a b < 0) = (0 < cmp b a)"
  by (simp add: consistent_def)

lemma consistent_trans: "consistent cmp \<Longrightarrow> cmp a b \<le> 0 \<Longrightarrow> cmp b c \<le> 0 \<Longrightarrow> cmp a c \<le> 0"
  unfolding consistent_def by blast

lemma consistent_total: "consistent cmp \<Longrightarrow> 0 < cmp a b \<Longrightarrow> cmp b a \<le> 0"
  using consistent_swap [of cmp b a] by simp

lemma consistent_equal_sym: "consistent cmp \<Longrightarrow> cmp a b = 0 \<Longrightarrow> cmp b a = 0"
  using consistent_swap [of cmp a b] consistent_swap [of cmp b a] by linarith

lemma consistent_equal_trans:
  assumes "consistent cmp" "cmp a b = 0" "cmp b c = 0"
  shows "cmp a c = 0"
proof -
  have "cmp a c \<le> 0"
    using consistent_trans [OF assms(1), of a b c] assms by simp
  moreover have "cmp c a \<le> 0"
    using consistent_trans [OF assms(1), of c b a] consistent_equal_sym [OF assms(1)] assms by simp
  ultimately show ?thesis
    using consistent_swap [OF assms(1), of a c] by linarith
qed

lemma consistent_flip: "consistent cmp \<Longrightarrow> consistent (\<lambda>a b. cmp b a)"
  unfolding consistent_def by (intro conjI allI impI) (simp, metis, blast)

lemma consistent_compareRecords:
  "consistent lc \<Longrightarrow> consistent (compareRecords lc ds col asc)"
proof -
  assume lc: "consistent lc"
  have "consistent (\<lambda>a b. lc (orEmpty (records ds a col)) (orEmpty (records ds b col)))"
    using lc unfolding consistent_def by (intro conjI allI impI) (simp, simp, blast)
  then have "consistent (compareRecords lc ds col True)"
    by (simp add: compareRecords_def [abs_def])
  moreover from this have "consistent (compareRecords lc ds col False)"
    using consistent_flip [of "compareRecords lc ds col True"]
    by (simp add: compareRecords_def [abs_def])
  ultimately show ?thesis by (cases asc) simp_all
qed

lemma set_insert_by: "set (insert_by cmp x ys) = insert x (set ys)"
  by (induction ys) auto

lemma sorted_insert_by:
  assumes "consistent cmp"
  shows "sorted_wrt (\<lambda>a b. cmp a b \<le> 0) ys \<Longrightarrow> sorted_wrt (\<lambda>a b. cmp a b \<le> 0) (insert_by cmp x ys)"
proof (induction ys)
  case Nil
  then show ?case by simp
next
  case (Cons y ys)
  show ?case
  proof (cases "cmp x y \<le> 0")
    case True
    then have "\<forall>z\<in>set ys. cmp x z \<le> 0"
      using Cons.prems consistent_trans [OF assms, of x y] by auto
    with True Cons.prems show ?thesis by simp
  next
    case False
    then have "cmp y x \<le> 0"
      using consistent_total [OF assms, of x y] by simp
    with False Cons show ?thesis
      by (auto simp add: set_insert_by)
  qed
qed

lemma sorted_sort_by:
  "consistent cmp \<Longrightarrow> sorted_wrt (\<lambda>a b. cmp a b \<le> 0) (sort_by cmp xs)"
  by (induction xs) (simp_all add: sort_by_def sorted_insert_by)

lemma stable_insert_by:
  assumes "\<And>a b. P a \<Longrightarrow> P b \<Longrightarrow> cmp a b \<le> 0"
  shows "filter P (insert_by cmp x ys) = (if P x then x # filter P ys else filter P ys)"
  using assms by (induction ys) auto

lemma stable_sort_by:
  assumes "\<And>a b. P a \<Longrightarrow> P b \<Longrightarrow> cmp a b \<le> 0"
  shows "filter P (sort_by cmp xs) = filter P xs"
  by (induction xs) (simp_all add: sort_by_def stable_insert_by [of P cmp, OF assms])

lemma sorted_wrt_unique:
  assumes "\<And>a b. a \<in> set xs \<Longrightarrow> b \<in> set xs \<Longrightarrow> a \<noteq> b \<Longrightarrow> R a b \<Longrightarrow> \<not> R b a"
  shows "sorted_wrt R xs \<Longrightarrow> sorted_wrt R ys \<Longrightarrow> distinct xs \<Longrightarrow> mset xs = mset ys \<Longrightarrow> xs = ys"
  using assms
proof (induction xs arbitrary: ys)
  case Nil
  then show ?case by simp
next
  case (Cons x xs)
  from Cons.prems(4) obtain y ys' where ys: "ys = y # ys'"
    by (cases ys) auto
  have sets: "set (x # xs) = set (y # ys')"
    using Cons.prems(4) ys by (metis set_mset_mset)
  have "x = y"
  proof (rule ccontr)
    assume ne: "x \<noteq> y"
    with sets have "x \<in> set ys'" "y \<in> set xs" by auto
    then have "R y x" "R x y"
      using Cons.prems(1,2) ys by auto
    with ne sets Cons.prems(5) [of x y] show False by auto
  qed
  moreover have "xs = ys'"
  proof (rule Cons.IH)
    show "sorted_wrt R xs" using Cons.prems(1) by simp
    show "sorted_wrt R ys'" using Cons.prems(2) ys by simp
    show "distinct xs" using Cons.prems(3) by simp
    show "mset xs = mset ys'" using Cons.prems(4) ys \<open>x = y\<close> by simp
    show "\<And>a b. a \<in> set xs \<Longrightarrow> b \<in> set xs \<Longrightarrow> a \<noteq> b \<Longrightarrow> R a b \<Longrightarrow> \<not> R b a"
      using Cons.prems(5) by simp
  qed
  ultimately show ?case using ys by simp
qed

lemma sort_by_flip_rev:
  assumes c: "consistent cmp"
    and d: "distinct xs"
    and k: "\<And>a b. a \<in> set xs \<Longrightarrow> b \<in> set xs \<Longrightarrow> a \<noteq> b \<Longrightarrow> cmp a b \<noteq> 0"
  shows "sort_by (\<lambda>a b. cmp b a) xs = rev (sort_by cmp xs)"
proof (rule sorted_wrt_unique [where R = "\<lambda>a b. cmp b a \<le> 0"])
  show "sorted_wrt (\<lambda>a b. cmp b a \<le> 0) (sort_by (\<lambda>a b. cmp b a) xs)"
    using sorted_sort_by [OF consistent_flip [OF c]] .
  show "sorted_wrt (\<lambda>a b. cmp b a \<le> 0) (rev (sort_by cmp xs))"
    using sorted_sort_by [OF c, of xs] by (simp add: sorted_wrt_rev)
  show "distinct (sort_by (\<lambda>a b. cmp b a) xs)"
    using d by (metis mset_sort_by mset_eq_imp_distinct_iff)
  show "mset (sort_by (\<lambda>a b. cmp b a) xs) = mset (rev (sort_by cmp xs))"
    by (simp add: mset_sort_by)
next
  fix a b
  assume "a \<in> set (sort_by (\<lambda>a b. cmp b a) xs)" "b \<in> set (sort_by (\<lambda>a b. cmp b a) xs)" "a \<noteq> b"
  then have "cmp a b \<noteq> 0"
    using k [of a b] by (metis mset_sort_by set_mset_mset)
  moreover assume "cmp b a \<le> 0"
  ultimately show "\<not> cmp a b \<le> 0"
    using consistent_swap [OF c, of a b] consistent_swap [OF c, of b a] by linarith
qed

lemma codeUnitCompare_refl: "codeUnitCompare a a = 0"
  by (induction a) simp_all

lemma codeUnitCompare_swap: "(codeUnitCompare a b < 0) = (0 < codeUnitCompare b a)"
  by (induction a b rule: codeUnitCompare.induct) auto

lemma codeUnitCompare_trans:
  "codeUnitCompare a b \<le> 0 \<Longrightarrow> codeUnitCompare b c \<le> 0 \<Longrightarrow> codeUnitCompare a c \<le> 0"
proof (induction a b arbitrary: c rule: codeUnitCompare.induct)
  case 1
  then show ?case by simp
next
  case (2 d ds)
  then show ?case by (cases c) simp_all
next
  case (3 x xs)
  then show ?case by simp
next
  case (4 x xs y ys)
  from "4.prems"(2) obtain z zs where c: "c = z # zs"
    by (cases c) simp_all
  have xy: "\<not> (of_char y :: nat) < of_char x"
    using "4.prems"(1) by (simp split: if_splits)
  have yz: "\<not> (of_char z :: nat) < of_char y"
    using "4.prems"(2) c by (simp split: if_splits)
  show ?case
  proof (cases "(of_char x :: nat) < of_char z")
    case True
    then show ?thesis by (simp add: c)
  next
    case False
    with xy yz have eq: "(of_char x :: nat) = of_char y" "(of_char y :: nat) = of_char z"
      by linarith+
    then have "codeUnitCompare xs ys \<le> 0" "codeUnitCompare ys zs \<le> 0"
      using "4.prems" c by simp_all
    then have "codeUnitCompare xs zs \<le> 0"
      using "4.IH" [of zs] eq by simp
    with eq show ?thesis by (simp add: c)
  qed
qed

lemma consistent_codeUnitCompare: "consistent codeUnitCompare"
  unfolding consistent_def
  using codeUnitCompare_refl codeUnitCompare_swap codeUnitCompare_trans by blast

text \<open>
  C5. Let the comparison of the locale be consistent and let C be a sort column (a name
  that is not empty, which is what the guard of the sort asks for). In either direction the
  sorted records are a rearrangement of the records of the recordset, in the order of the
  comparison of their formatted values in column C, absent values compared as the empty
  string, and the records whose values compare equal to any given one stand in their
  original relative order. When the values of the records are pairwise distinct under the
  comparison, the descending order is exactly the reverse of the ascending order.
\<close>

theorem sort_stable:
  assumes "consistent lc" and "currentSortColumn this = Some C" and "C \<noteq> []"
  shows "mset (sortedRecords lc ds this) = mset (sortedRecordIds ds)
    \<and> sorted_wrt (\<lambda>a b. compareRecords lc ds C (isAscending this) a b \<le> 0) (sortedRecords lc ds this)
    \<and> filter (\<lambda>r. lc (orEmpty (records ds r C)) k = 0) (sortedRecords lc ds this)
        = filter (\<lambda>r. lc (orEmpty (records ds r C)) k = 0) (sortedRecordIds ds)
    \<and> (distinct (sortedRecordIds ds)
        \<and> (\<forall>a\<in>set (sortedRecordIds ds). \<forall>b\<in>set (sortedRecordIds ds).
              a \<noteq> b \<longrightarrow> lc (orEmpty (records ds a C)) (orEmpty (records ds b C)) \<noteq> 0)
        \<longrightarrow> sortedRecords lc ds (this\<lparr>isAscending := False\<rparr>)
              = rev (sortedRecords lc ds (this\<lparr>isAscending := True\<rparr>)))"
proof -
  let ?cmp = "compareRecords lc ds C"
  let ?P = "\<lambda>r. lc (orEmpty (records ds r C)) k = 0"
  have sorted_eq: "sortedRecords lc ds that = sort_by (?cmp (isAscending that)) (sortedRecordIds ds)"
    if "currentSortColumn that = Some C" for that
    using that assms(3) by (simp add: sortedRecords_def)
  have c: "consistent (?cmp asc)" for asc
    using assms(1) by (rule consistent_compareRecords)
  have ordered: "sorted_wrt (\<lambda>a b. ?cmp (isAscending this) a b \<le> 0) (sortedRecords lc ds this)"
    using sorted_sort_by [OF c] by (simp add: sorted_eq [OF assms(2)])
  have same: "?cmp asc a b \<le> 0" if "?P a" "?P b" for asc a b
  proof -
    have "lc k (orEmpty (records ds b C)) = 0" "lc k (orEmpty (records ds a C)) = 0"
      using that consistent_equal_sym [OF assms(1)] by simp_all
    with that have "lc (orEmpty (records ds a C)) (orEmpty (records ds b C)) = 0"
      "lc (orEmpty (records ds b C)) (orEmpty (records ds a C)) = 0"
      using consistent_equal_trans [OF assms(1), of _ k] by simp_all
    then show ?thesis by (simp add: compareRecords_def Let_def)
  qed
  have stable: "filter ?P (sortedRecords lc ds this) = filter ?P (sortedRecordIds ds)"
    unfolding sorted_eq [OF assms(2)] by (rule stable_sort_by) (rule same)
  have reverse: "sortedRecords lc ds (this\<lparr>isAscending := False\<rparr>)
      = rev (sortedRecords lc ds (this\<lparr>isAscending := True\<rparr>))"
    if d: "distinct (sortedRecordIds ds)"
      and k: "\<forall>a\<in>set (sortedRecordIds ds). \<forall>b\<in>set (sortedRecordIds ds).
              a \<noteq> b \<longrightarrow> lc (orEmpty (records ds a C)) (orEmpty (records ds b C)) \<noteq> 0"
  proof -
    have flip: "?cmp False = (\<lambda>a b. ?cmp True b a)"
      by (simp add: compareRecords_def Let_def fun_eq_iff)
    have "sort_by (\<lambda>a b. ?cmp True b a) (sortedRecordIds ds) = rev (sort_by (?cmp True) (sortedRecordIds ds))"
      using c d
    proof (rule sort_by_flip_rev)
      fix a b
      assume "a \<in> set (sortedRecordIds ds)" "b \<in> set (sortedRecordIds ds)" "a \<noteq> b"
      with k show "?cmp True a b \<noteq> 0"
        by (simp add: compareRecords_def Let_def)
    qed
    then show ?thesis
      using assms(2) by (simp add: sorted_eq flip)
  qed
  show ?thesis
    using mset_sortedRecords ordered stable reverse by blast
qed

theorem sort_stable_witness:
  "sortedRecords codeUnitCompare contacts
      (initial\<lparr>currentSortColumn := Some ''fullname'', isAscending := True\<rparr>) = [''r2'', ''r3'', ''r1'']
   \<and> sortedRecords codeUnitCompare contacts
      (initial\<lparr>currentSortColumn := Some ''fullname'', isAscending := False\<rparr>) = [''r1'', ''r3'', ''r2'']
   \<and> sortedRecords codeUnitCompare contacts
      (initial\<lparr>currentSortColumn := Some ''fullname'', isAscending := False\<rparr>)
      = rev (sortedRecords codeUnitCompare contacts
               (initial\<lparr>currentSortColumn := Some ''fullname'', isAscending := True\<rparr>))
   \<and> filter (\<lambda>r. codeUnitCompare (orEmpty (records contactsAndBlank r ''telephone1'')) [] = 0)
        (sortedRecords codeUnitCompare contactsAndBlank
           (initial\<lparr>currentSortColumn := Some ''telephone1'', isAscending := False\<rparr>))
      = [''r2'', ''r4'']"
proof -
  let ?ctl = "initial\<lparr>currentSortColumn := Some ''fullname''\<rparr>"
  let ?phone = "initial\<lparr>currentSortColumn := Some ''telephone1'', isAscending := False\<rparr>"
  have asc: "sortedRecords codeUnitCompare contacts (?ctl\<lparr>isAscending := True\<rparr>) = [''r2'', ''r3'', ''r1'']"
    by code_simp
  have desc: "sortedRecords codeUnitCompare contacts (?ctl\<lparr>isAscending := False\<rparr>) = [''r1'', ''r3'', ''r2'']"
    by code_simp
  have d: "distinct (sortedRecordIds contacts)"
    by (simp add: contacts_def)
  have k: "\<forall>a\<in>set (sortedRecordIds contacts). \<forall>b\<in>set (sortedRecordIds contacts).
      a \<noteq> b \<longrightarrow> codeUnitCompare (orEmpty (records contacts a ''fullname''))
                   (orEmpty (records contacts b ''fullname'')) \<noteq> 0"
    by (simp add: contacts_def contactValues_def orEmpty_def)
  have col: "currentSortColumn ?ctl = Some ''fullname''" "''fullname'' \<noteq> []"
    "currentSortColumn ?phone = Some ''telephone1''" "''telephone1'' \<noteq> []"
    by simp_all
  have blank: "filter (\<lambda>r. codeUnitCompare (orEmpty (records contactsAndBlank r ''telephone1'')) [] = 0)
      (sortedRecordIds contactsAndBlank) = [''r2'', ''r4'']"
    by (simp add: contactsAndBlank_def contactValues_def orEmpty_def)
  show ?thesis
    using sort_stable [OF consistent_codeUnitCompare col(1,2), of contacts "[]"]
      sort_stable [OF consistent_codeUnitCompare col(3,4), of contactsAndBlank "[]"]
      asc desc d k blank
    by simp
qed

section \<open>Highlighting\<close>

lemma removeMarkers_open: "removeMarkers (openMarker @ xs) = removeMarkers xs"
proof -
  obtain c cs where o: "openMarker @ xs = c # cs"
    by (cases "openMarker @ xs") (simp_all add: openMarker_def)
  have "prefix openMarker (c # cs)"
    by (metis o prefixI)
  then have "removeMarkers (c # cs) = removeMarkers (drop (length openMarker) (c # cs))"
    by simp
  then show ?thesis
    by (simp flip: o)
qed

lemma open_not_close: "\<not> prefix openMarker (closeMarker @ xs)"
  by (simp add: openMarker_def closeMarker_def)

lemma removeMarkers_close: "removeMarkers (closeMarker @ xs) = removeMarkers xs"
proof -
  obtain c cs where o: "closeMarker @ xs = c # cs"
    by (cases "closeMarker @ xs") (simp_all add: closeMarker_def)
  have "prefix closeMarker (c # cs)" "\<not> prefix openMarker (c # cs)"
    using open_not_close [of xs] by (metis o prefixI, simp add: o)
  then have "removeMarkers (c # cs) = removeMarkers (drop (length closeMarker) (c # cs))"
    by simp
  then show ?thesis
    by (simp flip: o)
qed

lemma removeMarkers_plain:
  "CHR ''<'' \<notin> set m \<Longrightarrow> removeMarkers (m @ xs) = m @ removeMarkers xs"
proof (induction m)
  case Nil
  then show ?case by simp
next
  case (Cons c m)
  then have "\<not> prefix openMarker (c # m @ xs)" "\<not> prefix closeMarker (c # m @ xs)"
    by (simp_all add: openMarker_def closeMarker_def)
  with Cons show ?case by simp
qed

lemma starMatches_suffix:
  "(\<And>s t. t \<in> set (m s) \<Longrightarrow> suffix t s) \<Longrightarrow> t \<in> set (starMatches m s) \<Longrightarrow> suffix t s"
proof (induction m s arbitrary: t rule: starMatches.induct)
  case (1 m s)
  from "1.prems"(2) have "t = s \<or> (\<exists>u\<in>set (m s). length u < length s \<and> t \<in> set (starMatches m u))"
    by (subst (asm) starMatches.simps) auto
  then show ?case
  proof
    assume "t = s"
    then show ?thesis by simp
  next
    assume "\<exists>u\<in>set (m s). length u < length s \<and> t \<in> set (starMatches m u)"
    then obtain u where u: "u \<in> set (m s)" "length u < length s" "t \<in> set (starMatches m u)"
      by blast
    then have "suffix t u"
      using "1.IH" [of u t] "1.prems"(1) by simp
    moreover have "suffix u s"
      using "1.prems"(1) u(1) by simp
    ultimately show ?thesis
      by (rule suffix_order.trans)
  qed
qed

lemma matches_suffix: "t \<in> set (matches r s) \<Longrightarrow> suffix t s"
proof (induction r arbitrary: s t)
  case Empty
  then show ?case by simp
next
  case (Chr c)
  then show ?case by (cases s) (auto split: if_splits simp add: suffix_Cons)
next
  case AnyChar
  then show ?case by (cases s) (auto split: if_splits simp add: suffix_Cons)
next
  case (Seq a b)
  from Seq.prems obtain u where "u \<in> set (matches a s)" "t \<in> set (matches b u)"
    by auto
  then have "suffix u s" "suffix t u"
    using Seq.IH by simp_all
  then show ?case
    using suffix_order.trans by blast
next
  case (Alt a b)
  then show ?case by auto
next
  case (Star a)
  then show ?case
    using starMatches_suffix [of "matches a"] by simp
next
  case (Plus a)
  from Plus.prems obtain u where "u \<in> set (matches a s)" "t \<in> set (starMatches (matches a) u)"
    by auto
  then have "suffix u s" "suffix t u"
    using Plus.IH starMatches_suffix [of "matches a"] by simp_all
  then show ?case
    using suffix_order.trans by blast
next
  case (Opt a)
  then show ?case by auto
next
  case (Group a)
  then show ?case by simp
qed

lemma replaceMatches_round_trip:
  "CHR ''<'' \<notin> set s \<Longrightarrow> removeMarkers (replaceMatches r s) = s"
proof (induction r s rule: replaceMatches.induct)
  case (1 r s)
  show ?case
  proof (cases "matches r s")
    case Nil
    show ?thesis
    proof (cases s)
      case Nil
      with \<open>matches r s = []\<close> show ?thesis
        by (subst replaceMatches.simps) simp
    next
      case (Cons c cs)
      with "1.prems" have "removeMarkers (replaceMatches r cs) = cs"
        using "1.IH"(1) [OF \<open>matches r s = []\<close> Cons] by simp
      with Cons "1.prems" \<open>matches r s = []\<close> show ?thesis
        using removeMarkers_plain [of "[c]" "replaceMatches r cs"]
        by (subst replaceMatches.simps) simp
    qed
  next
    case (Cons t ts)
    then have suf: "suffix t s"
      using matches_suffix [of t r s] by simp
    show ?thesis
    proof (cases "length t < length s")
      case True
      let ?m = "take (length s - length t) s"
      from suf have split: "?m @ t = s"
        by (auto simp add: suffix_def)
      then have "CHR ''<'' \<notin> set ?m" "CHR ''<'' \<notin> set t"
        using "1.prems" by (metis Un_iff set_append)+
      then have "removeMarkers (replaceMatches r t) = t" "removeMarkers (?m @ closeMarker @ replaceMatches r t)
          = ?m @ removeMarkers (closeMarker @ replaceMatches r t)"
        using "1.IH"(2) [OF Cons True] removeMarkers_plain by simp_all
      with Cons True split show ?thesis
        by (subst replaceMatches.simps) (simp add: removeMarkers_open removeMarkers_close)
    next
      case False
      show ?thesis
      proof (cases s)
        case Nil
        with Cons False show ?thesis
          using removeMarkers_open [of "closeMarker"] removeMarkers_close [of "[]"]
          by (subst replaceMatches.simps) simp
      next
        case (Cons c cs)
        with "1.prems" have "removeMarkers (replaceMatches r cs) = cs"
          using "1.IH"(3) [OF \<open>matches r s = t # ts\<close> False Cons] by simp
        with Cons "1.prems" \<open>matches r s = t # ts\<close> False show ?thesis
          using removeMarkers_plain [of "[c]" "replaceMatches r cs"]
            removeMarkers_open [of "closeMarker @ c # replaceMatches r cs"]
            removeMarkers_close [of "c # replaceMatches r cs"]
          by (subst replaceMatches.simps) simp
      qed
    qed
  qed
qed

lemma canonicalize_nat:
  "of_char (canonicalize c) =
     (let n = (of_char c :: nat)
      in if (97 \<le> n \<and> n \<le> 122) \<or> (224 \<le> n \<and> n \<le> 254 \<and> n \<noteq> 247) then n - 32 else n)"
proof -
  have "(of_char c :: nat) < 256" by simp
  then show ?thesis
    by (auto simp add: canonicalize_def Let_def)
qed

lemma toLowerCase_char_nat:
  "of_char (toLowerCase_char c) =
     (let n = (of_char c :: nat)
      in if (65 \<le> n \<and> n \<le> 90) \<or> (192 \<le> n \<and> n \<le> 222 \<and> n \<noteq> 215) then n + 32 else n)"
proof -
  have "(of_char c :: nat) < 256" by simp
  then show ?thesis
    by (auto simp add: toLowerCase_char_def Let_def)
qed

lemma canonicalize_lower: "canonicalize (toLowerCase_char c) = canonicalize c"
proof -
  have "(of_char (canonicalize (toLowerCase_char c)) :: nat) = of_char (canonicalize c)"
    unfolding canonicalize_nat toLowerCase_char_nat Let_def by auto
  then show ?thesis by simp
qed

lemma lower_canonicalize: "toLowerCase_char (canonicalize c) = toLowerCase_char c"
proof -
  have "(of_char (toLowerCase_char (canonicalize c)) :: nat) = of_char (toLowerCase_char c)"
    unfolding canonicalize_nat toLowerCase_char_nat Let_def by auto
  then show ?thesis by simp
qed

lemma canonicalize_eq_lower:
  "canonicalize a = canonicalize b \<longleftrightarrow> toLowerCase_char a = toLowerCase_char b"
  by (metis canonicalize_lower lower_canonicalize)

lemma matches_literal:
  "matches (foldr Seq (map Chr q) Empty) s =
     (if length q \<le> length s \<and> map canonicalize (take (length q) s) = map canonicalize q
      then [drop (length q) s] else [])"
proof (induction q arbitrary: s)
  case Nil
  then show ?case by simp
next
  case (Cons c q)
  then show ?case by (cases s) auto
qed

lemma replaceMatches_unchanged:
  "(\<And>t. suffix t s \<Longrightarrow> matches r t = []) \<Longrightarrow> replaceMatches r s = s"
proof (induction s)
  case Nil
  then have "matches r [] = []" by simp
  then show ?case by (subst replaceMatches.simps) simp
next
  case (Cons c cs)
  then have "matches r (c # cs) = []" "replaceMatches r cs = cs"
    by (simp_all add: suffix_Cons)
  then show ?case by (subst replaceMatches.simps) simp
qed

lemma map_canonicalize_lower:
  "map canonicalize xs = map canonicalize ys \<longleftrightarrow> toLowerCase xs = toLowerCase ys"
proof (induction xs arbitrary: ys)
  case Nil
  then show ?case by (simp add: toLowerCase_def)
next
  case (Cons x xs)
  then show ?case
    by (cases ys) (simp_all add: toLowerCase_def canonicalize_eq_lower)
qed

lemma literal_no_match:
  assumes "\<not> containsIgnoringCase v q" "suffix t v"
  shows "matches (Group (foldr Seq (map Chr q) Empty)) t = []"
proof -
  have "\<not> (length q \<le> length t \<and> map canonicalize (take (length q) t) = map canonicalize q)"
  proof
    assume m: "length q \<le> length t \<and> map canonicalize (take (length q) t) = map canonicalize q"
    then have "toLowerCase (take (length q) t) = toLowerCase q"
      by (simp add: map_canonicalize_lower)
    moreover have "sublist (take (length q) t) v"
      using assms(2) by (metis append_take_drop_id suffix_def sublist_appendI sublist_def append.assoc)
    ultimately show False
      using assms(1) by (auto simp add: containsIgnoringCase_def)
  qed
  then show ?thesis
    by (simp add: matches_literal)
qed

text \<open>
  A query without syntax characters is read as literal text: highlighting completes, a
  value that does not contain the query (ignoring case) is returned unchanged, and
  removing the markers gives the value back, for every value without the character
  \<^verbatim>\<open><\<close> (with which a value could hold a marker of its own).
\<close>

lemma highlight_literal:
  assumes "list_all (\<lambda>c. \<not> isSyntaxCharacter c) q" and "CHR ''<'' \<notin> set v"
  shows "\<exists>out. highlightText v q = Normal out \<and> removeMarkers out = v
            \<and> (\<not> containsIgnoringCase v q \<longrightarrow> out = v)"
proof (cases "q = []")
  case True
  then show ?thesis
    using assms(2) removeMarkers_plain [of v "[]"] by (simp add: highlightText_def)
next
  case False
  let ?g = "Group (foldr Seq (map Chr q) Empty)"
  have h: "highlightText v q = Normal (replaceMatches ?g v)"
    using False RegExp_literal [OF False assms(1)] by (simp add: highlightText_def)
  have "\<not> containsIgnoringCase v q \<longrightarrow> replaceMatches ?g v = v"
    using replaceMatches_unchanged [of v ?g] literal_no_match [of v q] by blast
  then show ?thesis
    using h replaceMatches_round_trip [OF assms(2), of ?g] by simp
qed

text \<open>Whenever highlighting completes, removing the markers gives the value back.\<close>

lemma highlight_round_trip:
  "highlightText v q = Normal out \<Longrightarrow> CHR ''<'' \<notin> set v \<Longrightarrow> removeMarkers out = v"
  using removeMarkers_plain [of v "[]"] replaceMatches_round_trip [of v]
  by (auto simp add: highlightText_def split: if_splits completion.splits regex.splits)

lemma highlight_example:
  "highlightText ''Tara Young'' ''tara'' = Normal (openMarker @ ''Tara'' @ closeMarker @ '' Young'')"
  by code_simp

text \<open>
  C1. The claim asks that every character of the query is read as literal text. The control
  puts the query into a pattern as it is. The query \<^verbatim>\<open>(\<close> passes the filter for a record
  whose telephone number holds a parenthesis, and highlighting the first cell of that record
  throws the SyntaxError of the RegExp constructor, which ends the rendering; the query
  \<^verbatim>\<open>t.r\<close> marks \<^verbatim>\<open>Tar\<close>, which does not contain it; the query \<^verbatim>\<open>a+b\<close> marks nothing in
  the value \<^verbatim>\<open>a+b\<close>.
\<close>

theorem highlight_metacharacters:
  "highlightText ''(555) 0100'' ''('' = SyntaxError
   \<and> filteredRecords codeUnitCompare contacts (initial\<lparr>searchInput := ''(''\<rparr>) = [''r1'']
   \<and> renderTable codeUnitCompare contacts (initial\<lparr>searchInput := ''(''\<rparr>)
       = (initial\<lparr>searchInput := ''(''\<rparr>, SyntaxError)
   \<and> highlightText ''Tara'' ''t.r'' = Normal (openMarker @ ''Tar'' @ closeMarker @ ''a'')
   \<and> \<not> includes_str (toLowerCase ''Tara'') ''t.r''
   \<and> highlightText ''a+b'' ''a+b'' = Normal ''a+b''"
  by code_simp

text \<open>
  C6. The claim asks that a value containing the query is reproduced when the markers are
  removed from the highlighted value, and that a value not containing the query is returned
  unchanged. The value \<^verbatim>\<open>1+1\<close> contains the query \<^verbatim>\<open>+\<close>, and highlighting it throws; the
  value \<^verbatim>\<open>ab\<close> does not contain the query \<^verbatim>\<open>.\<close>, and each of its characters is marked.
\<close>

theorem highlight_round_trip_fails:
  "includes_str (toLowerCase ''1+1'') ''+''
   \<and> highlightText ''1+1'' ''+'' = SyntaxError
   \<and> \<not> includes_str (toLowerCase ''ab'') ''.''
   \<and> highlightText ''ab'' ''.''
       = Normal (openMarker @ ''a'' @ closeMarker @ openMarker @ ''b'' @ closeMarker)"
  by code_simp

end
